theory Spec2Isabelle
  imports Main "HOL-Library.Word" "HOL-Library.AList" "HOL-Library.Multiset"
begin

section \<open>Data model of the debug server\<close>

type_synonym byte = "8 word"
type_synonym addr = "64 word"
type_synonym errno = nat

text \<open>
  The architecture descriptor \<^verbatim>\<open>arch.Architecture\<close>. The package that declares it is
  not part of the sources at hand, so the descriptor is a parameter of the whole model:
  every field the server reads is a field here. \<open>MaxBreakpointSize\<close> is the package
  constant of that name (the length of the arrays \<open>BreakpointInstr\<close> and
  \<open>origInstr\<close>); \<open>ArchInt\<close> is the decoder \<^verbatim>\<open>arch.Int\<close>.
\<close>

record Architecture =
  BreakpointSize :: int
  IntSize :: int
  PointerSize :: int
  BreakpointInstr :: "byte list"
  MaxBreakpointSize :: nat
  ArchInt :: "byte list \<Rightarrow> 64 word"

text \<open>\<^verbatim>\<open>syscall.PtraceRegs\<close>: the two registers the server names, and the rest of the file.\<close>

record PtraceRegs =
  Rip :: "64 word"
  Rsp :: "64 word"
  OtherRegs :: "64 word list"

definition zeroRegs :: PtraceRegs where
  "zeroRegs = \<lparr>Rip = 0, Rsp = 0, OtherRegs = []\<rparr>"

record breakpoint =
  pc :: addr
  origInstr :: "byte list"

record file_entry =
  mode :: string
  index :: int
  handle :: nat

text \<open>
  The struct \<^verbatim>\<open>Server\<close>: the descriptor, the name of the executable and the fields that
  the requests change. The breakpoint map is kept as an association list (keys are looked
  up with \<open>map_of\<close> and stored with \<open>AList.update\<close>); a \<^verbatim>\<open>nil\<close> pointer is \<open>None\<close>. The
  tables \<^verbatim>\<open>dwarfData\<close> and \<^verbatim>\<open>table\<close>, which no request changes, are with the other
  things the server only calls (\<open>Extern\<close> below). The mutex and the two channels are left
  out: every handler holds the mutex from its first to its last statement, so the requests
  are served one after the other.
\<close>

record Server =
  arch :: Architecture
  executable :: string
  proc :: "int option"
  procIsUp :: bool
  stoppedPid :: int
  stoppedRegs :: PtraceRegs
  breakpoints :: "(addr \<times> breakpoint) list"
  files :: "file_entry option list"

datatype error =
    Errno errno
  | Errorf string error
  | NoProcess
  | BreakpointAlreadySet addr
  | BadOpenMode string
  | BadFd string int
  | BadExpression string
  | NotAnAddress string
  | NoLineData string
  | FramesNotImplemented
  | FormalParameterHasChildren
  | NoLocation

section \<open>The traced process and the kernel\<close>

record WaitStatus =
  StopSignal :: int
  TrapCause :: int

definition SIGTRAP :: int where "SIGTRAP = 5"
definition PTRACE_EVENT_CLONE :: int where "PTRACE_EVENT_CLONE = 3"
definition PTRACE_O_TRACECLONE :: int where "PTRACE_O_TRACECLONE = 8"

text \<open>What one call of \<^verbatim>\<open>wait\<close> reports: a kernel error, or a task, its status and the
  registers that task has at that moment.\<close>

datatype wait_reply =
    WaitError errno
  | Waited int WaitStatus PtraceRegs

text \<open>The trace operations the server issues, in the order it issues them.\<close>

datatype event =
    EvStart
  | EvKill int
  | EvWait int wait_reply
  | EvCont int int
  | EvSingleStep int
  | EvSetOptions int int
  | EvPeek int addr nat
  | EvPoke int addr "byte list"
  | EvGetRegs int
  | EvSetRegs int PtraceRegs

text \<open>
  The world outside the server: the code of the executable (\<open>image\<close>), the code memory of
  the live debuggee (\<open>mem\<close>, written only by poke: the debuggee maps its text read-only),
  the register file of every task, and what the kernel and the runtime will answer next:
  the results of the coming \<^verbatim>\<open>wait\<close> calls, the failures of the coming trace calls
  (\<open>None\<close> is success, an exhausted list is success), the task id of the next process,
  and the orders in which the coming \<^verbatim>\<open>range\<close> loops visit a map.
\<close>

record world =
  image :: "addr \<Rightarrow> byte"
  mem :: "addr \<Rightarrow> byte"
  regs :: "int \<Rightarrow> PtraceRegs"
  waits :: "wait_reply list"
  faults :: "errno option list"
  seeds :: "nat list"
  nextPid :: int
  log :: "event list"

text \<open>
  A call of a method of the server does not return (\<open>Hang\<close>: it blocks in \<^verbatim>\<open>wait\<close>
  for ever), panics, returns an error, or returns a value; the last two leave a state.
\<close>

datatype 'a outcome =
    Hang
  | Panic
  | Fail error Server world
  | Ok 'a Server world

definition andThen :: "'a outcome \<Rightarrow> ('a \<Rightarrow> Server \<Rightarrow> world \<Rightarrow> 'b outcome) \<Rightarrow> 'b outcome" where
  "andThen m k = (case m of Hang \<Rightarrow> Hang | Panic \<Rightarrow> Panic
                  | Fail e s w \<Rightarrow> Fail e s w | Ok x s w \<Rightarrow> k x s w)"

text \<open>\<^verbatim>\<open>fmt.Errorf("<prefix>: %v", err)\<close> around a call.\<close>

definition wrapErr :: "string \<Rightarrow> 'a outcome \<Rightarrow> 'a outcome" where
  "wrapErr prefix m = (case m of Fail e s w \<Rightarrow> Fail (Errorf prefix e) s w | r \<Rightarrow> r)"

primrec read_bytes :: "(addr \<Rightarrow> byte) \<Rightarrow> addr \<Rightarrow> nat \<Rightarrow> byte list" where
  "read_bytes m a 0 = []"
| "read_bytes m a (Suc n) = m a # read_bytes m (a + 1) n"

primrec write_bytes :: "(addr \<Rightarrow> byte) \<Rightarrow> addr \<Rightarrow> byte list \<Rightarrow> (addr \<Rightarrow> byte)" where
  "write_bytes m a [] = m"
| "write_bytes m a (b # bs) = write_bytes (m(a := b)) (a + 1) bs"

definition emit :: "event \<Rightarrow> world \<Rightarrow> world" where
  "emit ev w = w\<lparr>log := log w @ [ev]\<rparr>"

definition fault :: "world \<Rightarrow> errno option \<times> world" where
  "fault w = (case faults w of [] \<Rightarrow> (None, w) | x # xs \<Rightarrow> (x, w\<lparr>faults := xs\<rparr>))"

text \<open>
  Modelled from the spec: the trace channel. The file of the server with the methods
  \<^verbatim>\<open>ptracePoke\<close>, \<^verbatim>\<open>ptracePeek\<close>, \<^verbatim>\<open>ptraceCont\<close>, \<^verbatim>\<open>ptraceSingleStep\<close>,
  \<^verbatim>\<open>ptraceSetOptions\<close>, \<^verbatim>\<open>ptraceGetRegs\<close>, \<^verbatim>\<open>ptraceSetRegs\<close>, \<^verbatim>\<open>wait\<close> and
  \<^verbatim>\<open>startProcess\<close> is missing. Each of them is one kernel trace call, submitted and
  awaited: \<open>traceCall\<close> records the call in the trace and fails with the kernel's error
  when the world says so. A call may succeed for any task: the model leaves it to the
  world to fail the calls on a task that does not exist.
\<close>

definition traceCall :: "event \<Rightarrow> Server \<Rightarrow> world \<Rightarrow> unit outcome" where
  "traceCall ev s w = (case fault (emit ev w) of
      (Some e, w') \<Rightarrow> Fail (Errno e) s w'
    | (None, w') \<Rightarrow> Ok () s w')"

text \<open>Modelled from the spec: \<^verbatim>\<open>ptracePoke\<close> (missing) writes the bytes into the memory of
  the target at the address.\<close>

definition ptracePoke :: "int \<Rightarrow> addr \<Rightarrow> byte list \<Rightarrow> Server \<Rightarrow> world \<Rightarrow> unit outcome" where
  "ptracePoke pid a bs s w =
     andThen (traceCall (EvPoke pid a bs) s w)
       (\<lambda>_ s1 w1. Ok () s1 (w1\<lparr>mem := write_bytes (mem w1) a bs\<rparr>))"

text \<open>Modelled from the spec: \<^verbatim>\<open>ptracePeek\<close> (missing) reads from the memory of the
  target, at the address, as many bytes as the buffer it is given holds.\<close>

definition ptracePeek :: "int \<Rightarrow> addr \<Rightarrow> nat \<Rightarrow> Server \<Rightarrow> world \<Rightarrow> byte list outcome" where
  "ptracePeek pid a n s w =
     andThen (traceCall (EvPeek pid a n) s w)
       (\<lambda>_ s1 w1. Ok (read_bytes (mem w1) a n) s1 w1)"

text \<open>Modelled from the spec: \<^verbatim>\<open>ptraceCont\<close>, \<^verbatim>\<open>ptraceSingleStep\<close> and
  \<^verbatim>\<open>ptraceSetOptions\<close> (missing) continue a task with a signal, step it by one
  instruction, and set its trace options; what the task then does shows at the next
  \<^verbatim>\<open>wait\<close>.\<close>

definition ptraceCont :: "int \<Rightarrow> int \<Rightarrow> Server \<Rightarrow> world \<Rightarrow> unit outcome" where
  "ptraceCont pid sig s w = traceCall (EvCont pid sig) s w"

definition ptraceSingleStep :: "int \<Rightarrow> Server \<Rightarrow> world \<Rightarrow> unit outcome" where
  "ptraceSingleStep pid s w = traceCall (EvSingleStep pid) s w"

definition ptraceSetOptions :: "int \<Rightarrow> int \<Rightarrow> Server \<Rightarrow> world \<Rightarrow> unit outcome" where
  "ptraceSetOptions pid opts s w = traceCall (EvSetOptions pid opts) s w"

text \<open>Modelled from the spec: \<^verbatim>\<open>ptraceGetRegs\<close> and \<^verbatim>\<open>ptraceSetRegs\<close> (missing) read
  and write the register file of a task.\<close>

definition ptraceGetRegs :: "int \<Rightarrow> Server \<Rightarrow> world \<Rightarrow> PtraceRegs outcome" where
  "ptraceGetRegs pid s w =
     andThen (traceCall (EvGetRegs pid) s w) (\<lambda>_ s1 w1. Ok (regs w1 pid) s1 w1)"

definition ptraceSetRegs :: "int \<Rightarrow> PtraceRegs \<Rightarrow> Server \<Rightarrow> world \<Rightarrow> unit outcome" where
  "ptraceSetRegs pid r s w =
     andThen (traceCall (EvSetRegs pid r) s w)
       (\<lambda>_ s1 w1. Ok () s1 (w1\<lparr>regs := (regs w1)(pid := r)\<rparr>))"

text \<open>Modelled from the spec: \<^verbatim>\<open>wait\<close> (missing) blocks until the kernel reports a
  task: it gives the next reply of the world, whose registers become those of the
  reported task, and does not return when the world has no reply left. The reported task
  is the world's choice, whatever task was awaited.\<close>

definition wait :: "int \<Rightarrow> Server \<Rightarrow> world \<Rightarrow> (int \<times> WaitStatus) outcome" where
  "wait pid s w = (case waits w of
      [] \<Rightarrow> Hang
    | r # rs \<Rightarrow>
        (case r of
           WaitError e \<Rightarrow> Fail (Errno e) s (emit (EvWait pid r) (w\<lparr>waits := rs\<rparr>))
         | Waited wpid status rg \<Rightarrow>
             Ok (wpid, status) s
               (emit (EvWait pid r) (w\<lparr>waits := rs, regs := (regs w)(wpid := rg)\<rparr>))))"

text \<open>A Go slice expression \<^verbatim>\<open>a[:n]\<close> on an array: it panics unless \<open>0 \<le> n \<le> len(a)\<close>.\<close>

definition slice_to :: "'a list \<Rightarrow> int \<Rightarrow> 'a list option" where
  "slice_to xs n = (if 0 \<le> n \<and> nat n \<le> length xs then Some (take (nat n) xs) else None)"

text \<open>
  The order in which a \<^verbatim>\<open>range\<close> loop visits a Go map is not specified. The loop over
  the breakpoint table takes its order from the world: \<open>permute k\<close> picks the entries one
  after the other by the digits of \<open>k\<close>, and is a permutation of the entries for every
  \<open>k\<close>; with no seed left the order is that of insertion.
\<close>

function permute :: "nat \<Rightarrow> 'a list \<Rightarrow> 'a list" where
  "permute k xs =
     (if xs = [] then []
      else xs ! (k mod length xs) #
           permute (k div length xs) (take (k mod length xs) xs @ drop (Suc (k mod length xs)) xs))"
  by pat_completeness auto
termination
proof (relation "measure (\<lambda>(k, xs). length xs)")
  fix k :: nat and xs :: "'a list"
  assume "xs \<noteq> []"
  then have "k mod length xs < length xs" by simp
  then have "k mod length xs + (length xs - Suc (k mod length xs)) < length xs" by linarith
  then show "((k div length xs, take (k mod length xs) xs @ drop (Suc (k mod length xs)) xs), k, xs)
               \<in> measure (\<lambda>(k, xs). length xs)"
    by simp
qed simp

declare permute.simps [simp del]

definition rangeOrder :: "'a list \<Rightarrow> Server \<Rightarrow> world \<Rightarrow> 'a list outcome" where
  "rangeOrder xs s w = (case seeds w of
      [] \<Rightarrow> Ok xs s w
    | k # ks \<Rightarrow> Ok (permute k xs) s (w\<lparr>seeds := ks\<rparr>))"

section \<open>Installing and lifting breakpoints\<close>

fun setBreakpoints_loop :: "addr list \<Rightarrow> Server \<Rightarrow> world \<Rightarrow> unit outcome" where
  "setBreakpoints_loop [] s w = Ok () s w"
| "setBreakpoints_loop (a # as) s w =
     (case slice_to (BreakpointInstr (arch s)) (BreakpointSize (arch s)) of
        None \<Rightarrow> Panic
      | Some instr \<Rightarrow>
          andThen (wrapErr ''setBreakpoints'' (ptracePoke (stoppedPid s) a instr s w))
            (\<lambda>_ s1 w1. setBreakpoints_loop as s1 w1))"

definition setBreakpoints :: "Server \<Rightarrow> world \<Rightarrow> unit outcome" where
  "setBreakpoints s w =
     andThen (rangeOrder (map fst (breakpoints s)) s w)
       (\<lambda>as s1 w1. setBreakpoints_loop as s1 w1)"

fun liftBreakpoints_loop :: "(addr \<times> breakpoint) list \<Rightarrow> Server \<Rightarrow> world \<Rightarrow> unit outcome" where
  "liftBreakpoints_loop [] s w = Ok () s w"
| "liftBreakpoints_loop ((a, bp) # bps) s w =
     (case slice_to (origInstr bp) (BreakpointSize (arch s)) of
        None \<Rightarrow> Panic
      | Some instr \<Rightarrow>
          andThen (wrapErr ''liftBreakpoints'' (ptracePoke (stoppedPid s) a instr s w))
            (\<lambda>_ s1 w1. liftBreakpoints_loop bps s1 w1))"

definition liftBreakpoints :: "Server \<Rightarrow> world \<Rightarrow> unit outcome" where
  "liftBreakpoints s w =
     andThen (rangeOrder (breakpoints s) s w)
       (\<lambda>bps s1 w1. liftBreakpoints_loop bps s1 w1)"

section \<open>Waiting for a trap\<close>

function waitForTrap :: "int \<Rightarrow> Server \<Rightarrow> world \<Rightarrow> int outcome" where
  "waitForTrap p s w =
     (case wrapErr ''wait'' (wait p s w) of
        Hang \<Rightarrow> Hang
      | Panic \<Rightarrow> Panic
      | Fail e s1 w1 \<Rightarrow> Fail e s1 w1
      | Ok r s1 w1 \<Rightarrow>
          (case r of (wpid, status) \<Rightarrow>
             if StopSignal status = SIGTRAP \<and> TrapCause status \<noteq> PTRACE_EVENT_CLONE
             then Ok wpid s1 w1
             else (case wrapErr ''ptraceCont'' (ptraceCont wpid 0 s1 w1) of
                     Hang \<Rightarrow> Hang
                   | Panic \<Rightarrow> Panic
                   | Fail e s2 w2 \<Rightarrow> Fail e s2 w2
                   | Ok u s2 w2 \<Rightarrow> waitForTrap p s2 w2)))"
  by pat_completeness auto
termination
proof (relation "measure (\<lambda>(p, s, w). length (waits w))")
  fix p s w r s1 w1 wpid status u s2 w2
  assume a: "wrapErr ''wait'' (wait p s w) = Ok r s1 w1"
    and b: "wrapErr ''ptraceCont'' (ptraceCont wpid 0 s1 w1) = Ok u s2 w2"
  from a have "length (waits w1) < length (waits w)"
    by (auto simp: wrapErr_def wait_def emit_def split: list.splits wait_reply.splits)
  moreover from b have "waits w2 = waits w1"
    by (auto simp: wrapErr_def ptraceCont_def traceCall_def fault_def emit_def
             split: list.splits option.splits)
  ultimately show "((p, s2, w2), p, s, w) \<in> measure (\<lambda>(p, s, w). length (waits w))"
    by simp
qed simp

declare waitForTrap.simps [simp del]

section \<open>Run and Resume\<close>



record Status =
  PC :: "64 word"
  SP :: "64 word"

text \<open>
  \<^verbatim>\<open>Resume\<close>, in the stretches of its body: \<open>Resume_wake\<close> is the first stop of a new
  process, or the step over the breakpoint under the program counter (lines 260 to 279 of
  \<^verbatim>\<open>server.go\<close>); \<open>Resume_go\<close> installs and continues (lines 281 to 288);
  \<open>Resume_stop\<close> waits for the stop and lifts (lines 290 to 298), and goes on with
  \<open>Resume_rewind\<close>, which reads the registers, moves the program counter back and writes
  them (lines 300 to 314). The assignment \<^verbatim>\<open>s.stoppedPid, err = s.waitForTrap(-1)\<close> stores
  the task 0 that \<^verbatim>\<open>waitForTrap\<close> returns with an error.
\<close>

definition Resume_wake :: "Server \<Rightarrow> world \<Rightarrow> unit outcome" where
  "Resume_wake s w =
     (if \<not> procIsUp s then
        andThen (waitForTrap (stoppedPid s) (s\<lparr>procIsUp := True\<rparr>) w)
          (\<lambda>_ s1 w1. wrapErr ''ptraceSetOptions''
                        (ptraceSetOptions (stoppedPid s1) PTRACE_O_TRACECLONE s1 w1))
      else if map_of (breakpoints s) (Rip (stoppedRegs s)) \<noteq> None then
        andThen (wrapErr ''ptraceSingleStep'' (ptraceSingleStep (stoppedPid s) s w))
          (\<lambda>_ s1 w1. andThen (waitForTrap (stoppedPid s1) s1 w1) (\<lambda>_ s2 w2. Ok () s2 w2))
      else Ok () s w)"

definition Resume_go :: "Server \<Rightarrow> world \<Rightarrow> unit outcome" where
  "Resume_go s w =
     andThen (setBreakpoints s w)
       (\<lambda>_ s1 w1. wrapErr ''ptraceCont'' (ptraceCont (stoppedPid s1) 0 s1 w1))"

definition Resume_rewind :: "Server \<Rightarrow> world \<Rightarrow> Status outcome" where
  "Resume_rewind s w =
     andThen (wrapErr ''ptraceGetRegs'' (ptraceGetRegs (stoppedPid s) s w))
       (\<lambda>rg s1 w1.
          (case s1\<lparr>stoppedRegs := rg\<lparr>Rip := Rip rg - of_int (BreakpointSize (arch s1))\<rparr>\<rparr> of
             s2 \<Rightarrow>
               andThen (wrapErr ''ptraceSetRegs''
                          (ptraceSetRegs (stoppedPid s2) (stoppedRegs s2) s2 w1))
                 (\<lambda>_ s3 w3. Ok \<lparr>PC = Rip (stoppedRegs s3), SP = Rsp (stoppedRegs s3)\<rparr> s3 w3)))"

definition Resume_stop :: "Server \<Rightarrow> world \<Rightarrow> Status outcome" where
  "Resume_stop s w =
     (case waitForTrap (- 1) s w of
        Hang \<Rightarrow> Hang
      | Panic \<Rightarrow> Panic
      | Fail e s1 w1 \<Rightarrow> Fail e (s1\<lparr>stoppedPid := 0\<rparr>) w1
      | Ok wpid s1 w1 \<Rightarrow>
          andThen (liftBreakpoints (s1\<lparr>stoppedPid := wpid\<rparr>) w1)
            (\<lambda>_ s2 w2. Resume_rewind s2 w2))"

definition Resume :: "Server \<Rightarrow> world \<Rightarrow> Status outcome" where
  "Resume s w =
     (if proc s = None then Fail NoProcess s w
      else andThen (Resume_wake s w)
             (\<lambda>_ s1 w1. andThen (Resume_go s1 w1) (\<lambda>_ s2 w2. Resume_stop s2 w2)))"

section \<open>Expressions and breakpoints\<close>

datatype attr = AttrLocation | AttrName | AttrType | AttrOther nat

datatype val = ValBytes "byte list" | ValString string | ValOffset nat | ValOther

record Entry =
  Tag :: nat
  Children :: bool
  Field :: "(attr \<times> val) list"

definition TagFormalParameter :: nat where "TagFormalParameter = 5"

text \<open>What \<^verbatim>\<open>Reader.Next\<close> returns: an error, a \<^verbatim>\<open>nil\<close> entry (the end of the data), or
  an entry.\<close>

datatype next_result = NextErr error | NextNil | NextEntry Entry

record dwarfType =
  TypeString :: string
  TypeSize :: int

text \<open>
  What the server calls and the sources at hand do not hold: the symbol and line tables
  (\<^verbatim>\<open>lookupSym\<close>, \<^verbatim>\<open>lookupPC\<close>, \<^verbatim>\<open>lookupRE\<close>, \<^verbatim>\<open>table.PCToLine\<close>; \<open>table\<close> is
  \<open>None\<close> for a \<^verbatim>\<open>nil\<close> table), the debug information (\<^verbatim>\<open>entryForPC\<close> gives the offset
  of the entry, \<open>readerAt\<close> the results of the successive calls of \<^verbatim>\<open>Next\<close> of a reader
  moved to an offset, \<open>dwarfDataType\<close> is \<^verbatim>\<open>dwarfData.Type\<close>, \<^verbatim>\<open>evalLocation\<close>), the
  library (\<^verbatim>\<open>regexp.Compile\<close>, \<^verbatim>\<open>strconv.ParseUint\<close> with base 0, the two formats of
  \<^verbatim>\<open>fmt.Sprintf\<close> that \<^verbatim>\<open>eval\<close> uses) and the files of the host. All are parameters.
\<close>

record Extern =
  lookupSym :: "string \<Rightarrow> error + addr"
  lookupPC :: "addr \<Rightarrow> error + string"
  lookupRE :: "string \<Rightarrow> error + string list"
  regexpCompile :: "string \<Rightarrow> error + string"
  table :: "(addr \<Rightarrow> string \<times> int \<times> bool) option"
  ParseUint :: "string \<Rightarrow> error + 64 word"
  formatHex :: "64 word \<Rightarrow> string"
  formatFileLine :: "string \<Rightarrow> int \<Rightarrow> string"
  entryForPC :: "addr \<Rightarrow> error + nat"
  readerAt :: "nat \<Rightarrow> next_result list"
  dwarfDataType :: "nat \<Rightarrow> error + dwarfType"
  evalLocation :: "byte list \<Rightarrow> int"
  osOpenFile :: "string \<Rightarrow> int \<Rightarrow> errno + nat"
  fileReadAt :: "nat \<Rightarrow> int \<Rightarrow> int \<Rightarrow> byte list \<times> errno option"
  fileClose :: "nat \<Rightarrow> errno option"

definition HasPrefix :: "string \<Rightarrow> string \<Rightarrow> bool" where
  "HasPrefix str pre = (length pre \<le> length str \<and> take (length pre) str = pre)"

definition lookupSource :: "Extern \<Rightarrow> addr \<Rightarrow> string \<times> int \<times> bool" where
  "lookupSource x a = (case table x of None \<Rightarrow> ([], 0, False) | Some t \<Rightarrow> t a)"

definition isDigit :: "char \<Rightarrow> bool" where
  "isDigit c = (48 \<le> (of_char c :: nat) \<and> (of_char c :: nat) \<le> 57)"

definition eval :: "Extern \<Rightarrow> string \<Rightarrow> error + string list" where
  "eval x expr =
     (if HasPrefix expr ''re:'' then
        (case regexpCompile x (drop 3 expr) of
           Inl e \<Rightarrow> Inl e
         | Inr re \<Rightarrow> lookupRE x re)
      else if HasPrefix expr ''sym:'' then
        (case lookupSym x (drop 4 expr) of
           Inl e \<Rightarrow> Inl e
         | Inr a \<Rightarrow> Inr [formatHex x a])
      else if HasPrefix expr ''src:'' then
        (case ParseUint x (drop 4 expr) of
           Inl e \<Rightarrow> Inl e
         | Inr a \<Rightarrow>
             (case lookupSource x a of
                (fl, line, ok) \<Rightarrow>
                  if \<not> ok then Inl (NoLineData expr) else Inr [formatFileLine x fl line]))
      else if expr \<noteq> [] \<and> isDigit (hd expr) then
        (case ParseUint x expr of
           Inl e \<Rightarrow> Inl e
         | Inr a \<Rightarrow>
             (case lookupPC x a of
                Inl e \<Rightarrow> Inl e
              | Inr funcName \<Rightarrow> Inr [funcName]))
      else Inl (BadExpression expr))"

definition evalAddress :: "Extern \<Rightarrow> string \<Rightarrow> error + addr" where
  "evalAddress x expr =
     (case lookupSym x expr of
        Inr a \<Rightarrow> Inr a
      | Inl _ \<Rightarrow>
          (case ParseUint x expr of
             Inl _ \<Rightarrow> Inl (NotAnAddress expr)
           | Inr a \<Rightarrow> Inr a))"

text \<open>The loop of \<^verbatim>\<open>Breakpoint\<close>; the variable \<^verbatim>\<open>bp\<close> is declared before the loop and
  lives through its rounds.\<close>

fun Breakpoint_loop ::
  "Extern \<Rightarrow> string list \<Rightarrow> breakpoint \<Rightarrow> Server \<Rightarrow> world \<Rightarrow> unit outcome" where
  "Breakpoint_loop x [] bp s w = Ok () s w"
| "Breakpoint_loop x (a # as) bp s w =
     (case evalAddress x a of
        Inl e \<Rightarrow> Fail e s w
      | Inr p \<Rightarrow>
          if map_of (breakpoints s) p \<noteq> None then Fail (BreakpointAlreadySet p) s w
          else
            (case slice_to (origInstr bp) (BreakpointSize (arch s)) of
               None \<Rightarrow> Panic
             | Some buf \<Rightarrow>
                 andThen (wrapErr ''ptracePeek'' (ptracePeek (stoppedPid s) p (length buf) s w))
                   (\<lambda>bytes s1 w1.
                      (case \<lparr>pc = p, origInstr = bytes @ drop (length buf) (origInstr bp)\<rparr> of
                         bp1 \<Rightarrow> Breakpoint_loop x as bp1
                                  (s1\<lparr>breakpoints := AList.update p bp1 (breakpoints s1)\<rparr>) w1))))"

definition Breakpoint :: "Extern \<Rightarrow> string \<Rightarrow> Server \<Rightarrow> world \<Rightarrow> unit outcome" where
  "Breakpoint x address s w =
     (case eval x address of
        Inl e \<Rightarrow> Fail e s w
      | Inr addrs \<Rightarrow>
          Breakpoint_loop x addrs
            \<lparr>pc = 0, origInstr = replicate (MaxBreakpointSize (arch s)) 0\<rparr> s w)"

definition Eval :: "Extern \<Rightarrow> string \<Rightarrow> Server \<Rightarrow> world \<Rightarrow> string list outcome" where
  "Eval x expr s w = (case eval x expr of Inl e \<Rightarrow> Fail e s w | Inr r \<Rightarrow> Ok r s w)"

section \<open>Frames\<close>

text \<open>The string \<^verbatim>\<open>Frame.S\<close> is built by appending formatted pieces; it is kept as the
  list of the pieces, one for each \<^verbatim>\<open>Sprintf\<close> or concatenation of the source.\<close>

datatype piece =
    PieceLocation int
  | PieceName string
  | PieceType string
  | PieceValue "64 word"

record Frame =
  FrameS :: "piece list"

fun Frames_fields ::
  "Extern \<Rightarrow> 64 word \<Rightarrow> (attr \<times> val) list \<Rightarrow> 64 word \<Rightarrow> piece list \<Rightarrow>
   Server \<Rightarrow> world \<Rightarrow> piece list outcome" where
  "Frames_fields x fp [] location frS s w = Ok frS s w"
| "Frames_fields x fp ((at, v) # fs) location frS s w =
     (case at of
        AttrLocation \<Rightarrow>
          (case v of
             ValBytes bs \<Rightarrow>
               Frames_fields x fp fs (fp + of_int (evalLocation x bs))
                 (frS @ [PieceLocation (evalLocation x bs)]) s w
           | _ \<Rightarrow> Panic)
      | AttrName \<Rightarrow>
          (case v of
             ValString nm \<Rightarrow> Frames_fields x fp fs location (frS @ [PieceName nm]) s w
           | _ \<Rightarrow> Panic)
      | AttrType \<Rightarrow>
          (case v of
             ValOffset off \<Rightarrow>
               (case dwarfDataType x off of
                  Inl e \<Rightarrow> Panic
                | Inr t \<Rightarrow>
                    if TypeString t \<noteq> ''int'' \<or> TypeSize t \<noteq> IntSize (arch s)
                    then Frames_fields x fp fs location (frS @ [PieceType (TypeString t)]) s w
                    else if location = 0 then Fail NoLocation s w
                    else
                      (case slice_to (replicate 8 (0 :: byte)) (IntSize (arch s)) of
                         None \<Rightarrow> Panic
                       | Some buf \<Rightarrow>
                           andThen (ptracePeek (stoppedPid s) location (length buf) s w)
                             (\<lambda>bytes s1 w1.
                                Frames_fields x fp fs location
                                  (frS @ [PieceType (TypeString t),
                                          PieceValue (ArchInt (arch s1) bytes)]) s1 w1)))
           | _ \<Rightarrow> Panic)
      | AttrOther _ \<Rightarrow> Frames_fields x fp fs location frS s w)"

fun Frames_loop ::
  "Extern \<Rightarrow> 64 word \<Rightarrow> next_result list \<Rightarrow> piece list \<Rightarrow>
   Server \<Rightarrow> world \<Rightarrow> piece list outcome" where
  "Frames_loop x fp [] frS s w = Panic"
| "Frames_loop x fp (n # ns) frS s w =
     (case n of
        NextErr e \<Rightarrow> Fail e s w
      | NextNil \<Rightarrow> Panic
      | NextEntry en \<Rightarrow>
          if Tag en = 0 then Ok frS s w
          else if Tag en \<noteq> TagFormalParameter then Frames_loop x fp ns frS s w
          else if Children en then Fail FormalParameterHasChildren s w
          else andThen (Frames_fields x fp (Field en) 0 frS s w)
                 (\<lambda>frS1 s1 w1. Frames_loop x fp ns frS1 s1 w1))"

definition Frames :: "Extern \<Rightarrow> int \<Rightarrow> Server \<Rightarrow> world \<Rightarrow> Frame list outcome" where
  "Frames x cnt s w =
     (if cnt \<noteq> 1 then Fail FramesNotImplemented s w
      else
        andThen (ptraceGetRegs (stoppedPid s) s w)
          (\<lambda>rg s1 w1.
             (case entryForPC x (Rip rg) of
                Inl e \<Rightarrow> Fail e s1 w1
              | Inr off \<Rightarrow>
                  andThen (Frames_loop x (Rsp rg + of_int (PointerSize (arch s1)))
                             (readerAt x off) [] s1 w1)
                    (\<lambda>frS s2 w2. Ok [\<lparr>FrameS = frS\<rparr>] s2 w2))))"

section \<open>The file table\<close>

definition O_RDONLY :: int where "O_RDONLY = 0"
definition O_WRONLY :: int where "O_WRONLY = 1"
definition O_RDWR :: int where "O_RDWR = 2"

function findSlot :: "file_entry option list \<Rightarrow> nat \<Rightarrow> nat" where
  "findSlot fs i = (if i < length fs \<and> fs ! i \<noteq> None then findSlot fs (Suc i) else i)"
  by pat_completeness auto
termination
  by (relation "measure (\<lambda>(fs, i). length fs - i)") auto

declare findSlot.simps [simp del]

definition Open :: "Extern \<Rightarrow> string \<Rightarrow> string \<Rightarrow> Server \<Rightarrow> world \<Rightarrow> unit outcome" where
  "Open x name md s w =
     (case (if md = ''r'' then Some O_RDONLY
            else if md = ''w'' then Some O_WRONLY
            else if md = ''rw'' then Some O_RDWR
            else None) of
        None \<Rightarrow> Fail (BadOpenMode md) s w
      | Some flag \<Rightarrow>
          (case osOpenFile x name flag of
             Inl e \<Rightarrow> Fail (Errno e) s w
           | Inr osFile \<Rightarrow>
               (case findSlot (files s) 0 of
                  i \<Rightarrow>
                    if i = length (files s)
                    then Ok () (s\<lparr>files := files s @
                                   [Some \<lparr>mode = md, index = int i, handle = osFile\<rparr>]\<rparr>) w
                    else Ok () (s\<lparr>files := (files s)
                                   [i := Some \<lparr>mode = md, index = int i, handle = osFile\<rparr>]\<rparr>) w)))"



text \<open>\<^verbatim>\<open>New\<close>: the server before any request.\<close>

definition New :: "Architecture \<Rightarrow> string \<Rightarrow> Server" where
  "New a exe = \<lparr>arch = a, executable = exe, proc = None, procIsUp = False, stoppedPid = 0,
     stoppedRegs = zeroRegs, breakpoints = [], files = []\<rparr>"

section \<open>Requests in sequence, and an example target\<close>


text \<open>The state a call leaves when it returns, with or without an error.\<close>

definition returns :: "'a outcome \<Rightarrow> Server \<Rightarrow> world \<Rightarrow> bool" where
  "returns m s' w' =
     (case m of Hang \<Rightarrow> False | Panic \<Rightarrow> False
      | Fail e s w \<Rightarrow> s = s' \<and> w = w' | Ok y s w \<Rightarrow> s = s' \<and> w = w')"




text \<open>The bytes of the target that an entry of the table covers.\<close>

primrec addrs :: "addr \<Rightarrow> nat \<Rightarrow> addr list" where
  "addrs a 0 = []"
| "addrs a (Suc n) = a # addrs (a + 1) n"

definition bpLen :: "Server \<Rightarrow> nat" where
  "bpLen s = nat (BreakpointSize (arch s))"



definition isPoke :: "event \<Rightarrow> bool" where
  "isPoke ev = (case ev of EvPoke p a bs \<Rightarrow> True | _ \<Rightarrow> False)"

definition isTrap :: "WaitStatus \<Rightarrow> bool" where
  "isTrap status = (StopSignal status = SIGTRAP \<and> TrapCause status \<noteq> PTRACE_EVENT_CLONE)"

text \<open>
  Modelled from the spec: the descriptor of the 64-bit x86 target (the package of the
  descriptors is missing): a breakpoint instruction of one byte in an array of
  \<open>MaxBreakpointSize\<close> bytes, integers and pointers of eight bytes, little-endian.
\<close>

definition AMD64 :: Architecture where
  "AMD64 = \<lparr>BreakpointSize = 1, IntSize = 8, PointerSize = 8,
     BreakpointInstr = [0xCC, 0, 0, 0], MaxBreakpointSize = 4,
     ArchInt = (\<lambda>bs. foldr (\<lambda>b acc. ucast b + 256 * acc) bs 0)\<rparr>"

text \<open>An example: a target whose function \<^verbatim>\<open>main.foo\<close> starts at \<open>0x1000\<close> with the byte
  \<open>0x55\<close>, and a world in which nothing has happened yet.\<close>

definition exampleExtern :: Extern where
  "exampleExtern = \<lparr>
     lookupSym = (\<lambda>n. if n = ''main.foo'' then Inr 0x1000 else Inl (Errno 2)),
     lookupPC = (\<lambda>a. if a = 0x1000 then Inr ''main.foo'' else Inl (Errno 2)),
     lookupRE = (\<lambda>re. Inr []),
     regexpCompile = (\<lambda>re. Inr re),
     table = None,
     ParseUint = (\<lambda>str. if str = ''4096'' \<or> str = ''0x1000'' then Inr 0x1000 else Inl (Errno 22)),
     formatHex = (\<lambda>a. if a = 0x1000 then ''0x1000'' else ''0x0''),
     formatFileLine = (\<lambda>fl line. fl),
     entryForPC = (\<lambda>a. if a = 0x1000 then Inr 0 else Inl (Errno 2)),
     readerAt = (\<lambda>off. [NextEntry \<lparr>Tag = 0, Children = False, Field = []\<rparr>]),
     dwarfDataType = (\<lambda>off. Inl (Errno 2)),
     evalLocation = (\<lambda>bs. 0),
     osOpenFile = (\<lambda>name flag. Inr 3),
     fileReadAt = (\<lambda>h len offset. ([], None)),
     fileClose = (\<lambda>h. None)\<rparr>"

definition exampleWorld :: "wait_reply list \<Rightarrow> errno option list \<Rightarrow> world" where
  "exampleWorld ws fs = \<lparr>image = (\<lambda>a. if a = 0x1000 then 0x55 else 0x90),
     mem = (\<lambda>a. if a = 0x1000 then 0x55 else 0x90),
     regs = (\<lambda>p. zeroRegs), waits = ws, faults = fs, seeds = [], nextPid = 100, log = []\<rparr>"

definition trapStatus :: WaitStatus where
  "trapStatus = \<lparr>StopSignal = 5, TrapCause = 0\<rparr>"

definition cloneStatus :: WaitStatus where
  "cloneStatus = \<lparr>StopSignal = 5, TrapCause = 3\<rparr>"

definition regsAt :: "64 word \<Rightarrow> 64 word \<Rightarrow> PtraceRegs" where
  "regsAt ip sp = \<lparr>Rip = ip, Rsp = sp, OtherRegs = []\<rparr>"

definition exampleStopped :: Server where
  "exampleStopped = (New AMD64 ''tracee'')\<lparr>proc := Some 100, procIsUp := True, stoppedPid := 100,
     stoppedRegs := regsAt 0x1000 0x7000,
     breakpoints := [(0x1000, \<lparr>pc = 0x1000, origInstr = [0x55, 0, 0, 0]\<rparr>)]\<rparr>"

text \<open>The part of the trace that \<^verbatim>\<open>waitForTrap\<close> leaves for the replies it passes over:
  each of them is a stop that is not the awaited trap, followed by the continue of the
  task it reports, with signal 0.\<close>

definition task :: "wait_reply \<Rightarrow> int" where
  "task x = (case x of WaitError e \<Rightarrow> 0 | Waited q status rg \<Rightarrow> q)"

definition otherStop :: "wait_reply \<Rightarrow> bool" where
  "otherStop x = (case x of WaitError e \<Rightarrow> False | Waited q status rg \<Rightarrow> \<not> isTrap status)"

definition resumed :: "int \<Rightarrow> wait_reply list \<Rightarrow> event list" where
  "resumed p rs = concat (map (\<lambda>x. [EvWait p x, EvCont (task x) 0]) rs)"

definition cloneThenTrap :: world where
  "cloneThenTrap = exampleWorld [Waited 101 cloneStatus (regsAt 0x2000 0x8000),
                                 Waited 100 trapStatus (regsAt 0x1001 0x7000)] []"

text \<open>The pokes of an install and of a lift in the trace, and the register file with the
  program counter moved back by the size of the breakpoint instruction.\<close>

definition installPokes :: "Server \<Rightarrow> addr list \<Rightarrow> event list" where
  "installPokes s as =
     map (\<lambda>a. EvPoke (stoppedPid s) a (take (bpLen s) (BreakpointInstr (arch s)))) as"

definition liftPokes :: "Server \<Rightarrow> int \<Rightarrow> (addr \<times> breakpoint) list \<Rightarrow> event list" where
  "liftPokes s p bps = map (\<lambda>(a, bp). EvPoke p a (take (bpLen s) (origInstr bp))) bps"

definition rewound :: "Server \<Rightarrow> PtraceRegs \<Rightarrow> PtraceRegs" where
  "rewound s r = r\<lparr>Rip := Rip r - of_int (BreakpointSize (arch s))\<rparr>"

definition stepThenTrap :: world where
  "stepThenTrap = exampleWorld [Waited 100 trapStatus (regsAt 0x1001 0x7000),
                                Waited 100 trapStatus (regsAt 0x1001 0x6ff8)] []"

text \<open>The trace only grows.\<close>

definition grows :: "world \<Rightarrow> world \<Rightarrow> bool" where
  "grows w w' = (\<exists>evs. log w' = log w @ evs)"

definition twoFiles :: Server where
  "twoFiles = (New AMD64 ''tracee'')\<lparr>files :=
     [Some \<lparr>mode = ''r'', index = 0, handle = 7\<rparr>, None,
      Some \<lparr>mode = ''r'', index = 2, handle = 9\<rparr>]\<rparr>"

text \<open>The value of the variable \<^verbatim>\<open>bp\<close> that a round of the loop of \<^verbatim>\<open>Breakpoint\<close>
  inserts for the address \<open>q\<close>.\<close>

definition captured :: "Server \<Rightarrow> world \<Rightarrow> breakpoint \<Rightarrow> addr \<Rightarrow> breakpoint" where
  "captured s w bp q =
     \<lparr>pc = q, origInstr = read_bytes (mem w) q (bpLen s) @ drop (bpLen s) (origInstr bp)\<rparr>"

text \<open>A call that has changed neither the server nor the memory and the registers of the
  debuggee.\<close>

definition untouched :: "Server \<Rightarrow> world \<Rightarrow> Server \<Rightarrow> world \<Rightarrow> bool" where
  "untouched s w s' w' \<longleftrightarrow>
     s' = s \<and> grows w w' \<and> mem w' = mem w \<and> regs w' = regs w \<and> image w' = image w"

text \<open>The entries of formal parameters that the walk of \<^verbatim>\<open>Frames\<close> visits: those before the
  first entry with the null tag.\<close>

fun walked :: "next_result list \<Rightarrow> Entry list" where
  "walked [] = []"
| "walked (NextEntry en # ns) =
     (if Tag en = 0 then []
      else if Tag en = TagFormalParameter then en # walked ns
      else walked ns)"
| "walked (n # ns) = []"

definition paramReader :: "next_result list" where
  "paramReader =
     [NextEntry \<lparr>Tag = TagFormalParameter, Children = False,
                  Field = [(AttrName, ValString ''x''), (AttrType, ValOffset 64)]\<rparr>,
      NextEntry \<lparr>Tag = 0, Children = False, Field = []\<rparr>]"

definition paramExtern :: Extern where
  "paramExtern = exampleExtern\<lparr>readerAt := (\<lambda>off. paramReader)\<rparr>"

definition stoppedWorld :: world where
  "stoppedWorld = (exampleWorld [] [])\<lparr>regs := (\<lambda>p. regsAt 0x1000 0x7000)\<rparr>"










text \<open>A stop by a signal other than SIGTRAP (SIGSTOP).\<close>

definition stopStatus :: WaitStatus where
  "stopStatus = \<lparr>StopSignal = 19, TrapCause = 0\<rparr>"




section \<open>Basic facts about outcomes and trace calls\<close>

lemma andThen_Ok:
  "andThen m k = Ok y s' w' \<longleftrightarrow> (\<exists>x s1 w1. m = Ok x s1 w1 \<and> k x s1 w1 = Ok y s' w')"
  by (cases m) (simp_all add: andThen_def)

lemma andThen_Fail:
  "andThen m k = Fail e s' w' \<longleftrightarrow>
     m = Fail e s' w' \<or> (\<exists>x s1 w1. m = Ok x s1 w1 \<and> k x s1 w1 = Fail e s' w')"
  by (cases m) (simp_all add: andThen_def)

lemma wrapErr_Ok: "wrapErr p m = Ok x s w \<longleftrightarrow> m = Ok x s w"
  by (cases m) (simp_all add: wrapErr_def)


lemma returns_iff: "returns m s w \<longleftrightarrow> (\<exists>e. m = Fail e s w) \<or> (\<exists>y. m = Ok y s w)"
  by (cases m) (auto simp: returns_def)


lemma returns_andThen:
  "returns (andThen m k) s' w' \<longleftrightarrow>
     (\<exists>e. m = Fail e s' w') \<or> (\<exists>x s1 w1. m = Ok x s1 w1 \<and> returns (k x s1 w1) s' w')"
  by (cases m) (auto simp: andThen_def returns_def)

lemma traceCall_Ok:
  "traceCall ev s w = Ok u s1 w1 \<longleftrightarrow>
     s1 = s \<and> (faults w = [] \<and> w1 = w\<lparr>log := log w @ [ev]\<rparr> \<or>
               (\<exists>fs. faults w = None # fs \<and> w1 = w\<lparr>log := log w @ [ev], faults := fs\<rparr>))"
  by (auto simp: traceCall_def fault_def emit_def split: list.splits option.splits)

lemma traceCall_Fail:
  "traceCall ev s w = Fail e s1 w1 \<longleftrightarrow>
     s1 = s \<and> (\<exists>n fs. e = Errno n \<and> faults w = Some n # fs \<and>
                       w1 = w\<lparr>log := log w @ [ev], faults := fs\<rparr>)"
  by (auto simp: traceCall_def fault_def emit_def split: list.splits option.splits)

lemma traceCall_total: "traceCall ev s w \<noteq> Hang \<and> traceCall ev s w \<noteq> Panic"
  by (auto simp: traceCall_def fault_def emit_def split: list.splits option.splits)


section \<open>Installing and lifting: the pokes\<close>

lemma ptracePoke_Ok:
  "ptracePoke p a bs s w = Ok u s1 w1 \<Longrightarrow>
     s1 = s \<and> log w1 = log w @ [EvPoke p a bs] \<and> mem w1 = write_bytes (mem w) a bs \<and>
     regs w1 = regs w \<and> image w1 = image w \<and> waits w1 = waits w"
  by (auto simp: ptracePoke_def andThen_Ok traceCall_Ok)


lemma mset_permute: "mset (permute k xs) = mset xs"
proof (induction k xs rule: permute.induct)
  case (1 k xs)
  show ?case
  proof (cases "xs = []")
    case True
    then show ?thesis by (simp add: permute.simps)
  next
    case False
    define i where "i = k mod length xs"
    from False have i: "i < length xs" by (simp add: i_def)
    have "mset (permute k xs) = mset (xs ! i # permute (k div length xs) (take i xs @ drop (Suc i) xs))"
      using False by (subst permute.simps) (simp add: i_def)
    also have "\<dots> = {#xs ! i#} + mset (take i xs @ drop (Suc i) xs)"
      using 1 False by (simp add: i_def)
    also have "\<dots> = mset (take i xs @ xs ! i # drop (Suc i) xs)" by simp
    also have "\<dots> = mset xs" using i by (simp only: id_take_nth_drop [symmetric])
    finally show ?thesis .
  qed
qed

lemma rangeOrder_Ok:
  "rangeOrder xs s w = Ok ys s1 w1 \<Longrightarrow>
     s1 = s \<and> mset ys = mset xs \<and> log w1 = log w \<and> mem w1 = mem w \<and> regs w1 = regs w \<and>
     image w1 = image w \<and> waits w1 = waits w"
  by (auto simp: rangeOrder_def mset_permute split: list.splits)


lemma slice_to_Some:
  "slice_to xs n = Some ys \<longleftrightarrow> 0 \<le> n \<and> nat n \<le> length xs \<and> ys = take (nat n) xs"
  by (auto simp: slice_to_def)

lemma setBreakpoints_loop_Ok:
  "setBreakpoints_loop as s w = Ok u s' w' \<Longrightarrow>
     s' = s \<and>
     log w' = log w @ map (\<lambda>a. EvPoke (stoppedPid s) a
                (take (bpLen s) (BreakpointInstr (arch s)))) as \<and>
     mem w' = foldl (\<lambda>m a. write_bytes m a (take (bpLen s) (BreakpointInstr (arch s)))) (mem w) as \<and>
     regs w' = regs w \<and> image w' = image w \<and> waits w' = waits w \<and>
     (as \<noteq> [] \<longrightarrow> 0 \<le> BreakpointSize (arch s) \<and> bpLen s \<le> length (BreakpointInstr (arch s)))"
proof (induction as arbitrary: s w)
  case Nil
  then show ?case by simp
next
  case (Cons a as)
  from Cons.prems obtain instr s1 w1 where
    sl: "slice_to (BreakpointInstr (arch s)) (BreakpointSize (arch s)) = Some instr"
    and pk: "ptracePoke (stoppedPid s) a instr s w = Ok () s1 w1"
    and rest: "setBreakpoints_loop as s1 w1 = Ok u s' w'"
    by (auto simp: andThen_Ok wrapErr_Ok split: option.splits)
  note p = ptracePoke_Ok [OF pk]
  from sl have instr: "instr = take (bpLen s) (BreakpointInstr (arch s))"
    and bnd: "0 \<le> BreakpointSize (arch s)" "bpLen s \<le> length (BreakpointInstr (arch s))"
    by (auto simp: slice_to_Some bpLen_def)
  from Cons.IH [OF rest] p instr bnd show ?case by simp
qed

lemma liftBreakpoints_loop_Ok:
  "liftBreakpoints_loop bps s w = Ok u s' w' \<Longrightarrow>
     s' = s \<and>
     log w' = log w @ map (\<lambda>(a, bp). EvPoke (stoppedPid s) a (take (bpLen s) (origInstr bp))) bps \<and>
     mem w' = foldl (\<lambda>m (a, bp). write_bytes m a (take (bpLen s) (origInstr bp))) (mem w) bps \<and>
     regs w' = regs w \<and> image w' = image w \<and> waits w' = waits w \<and>
     list_all (\<lambda>(a, bp). 0 \<le> BreakpointSize (arch s) \<and> bpLen s \<le> length (origInstr bp)) bps"
proof (induction bps arbitrary: s w)
  case Nil
  then show ?case by simp
next
  case (Cons ab bps)
  obtain a bp where ab: "ab = (a, bp)" by (cases ab)
  from Cons.prems ab obtain instr s1 w1 where
    sl: "slice_to (origInstr bp) (BreakpointSize (arch s)) = Some instr"
    and pk: "ptracePoke (stoppedPid s) a instr s w = Ok () s1 w1"
    and rest: "liftBreakpoints_loop bps s1 w1 = Ok u s' w'"
    by (auto simp: andThen_Ok wrapErr_Ok split: option.splits)
  note p = ptracePoke_Ok [OF pk]
  from sl have instr: "instr = take (bpLen s) (origInstr bp)"
    and bnd: "0 \<le> BreakpointSize (arch s)" "bpLen s \<le> length (origInstr bp)"
    by (auto simp: slice_to_Some bpLen_def)
  from Cons.IH [OF rest] p instr bnd ab show ?case by simp
qed

lemma setBreakpoints_Ok:
  assumes "setBreakpoints s w = Ok u s' w'"
  shows "\<exists>as. mset as = mset (map fst (breakpoints s)) \<and> s' = s \<and>
     log w' = log w @ map (\<lambda>a. EvPoke (stoppedPid s) a
                (take (bpLen s) (BreakpointInstr (arch s)))) as \<and>
     mem w' = foldl (\<lambda>m a. write_bytes m a (take (bpLen s) (BreakpointInstr (arch s)))) (mem w) as \<and>
     regs w' = regs w \<and> image w' = image w \<and> waits w' = waits w \<and>
     (as \<noteq> [] \<longrightarrow> 0 \<le> BreakpointSize (arch s) \<and> bpLen s \<le> length (BreakpointInstr (arch s)))"
proof -
  from assms obtain as s1 w1 where
    r: "rangeOrder (map fst (breakpoints s)) s w = Ok as s1 w1"
    and l: "setBreakpoints_loop as s1 w1 = Ok u s' w'"
    by (auto simp: setBreakpoints_def andThen_Ok)
  from rangeOrder_Ok [OF r] setBreakpoints_loop_Ok [OF l] show ?thesis
    by (intro exI [of _ as]) simp
qed

lemma liftBreakpoints_Ok:
  assumes "liftBreakpoints s w = Ok u s' w'"
  shows "\<exists>bps. mset bps = mset (breakpoints s) \<and> s' = s \<and>
     log w' = log w @ map (\<lambda>(a, bp). EvPoke (stoppedPid s) a (take (bpLen s) (origInstr bp))) bps \<and>
     mem w' = foldl (\<lambda>m (a, bp). write_bytes m a (take (bpLen s) (origInstr bp))) (mem w) bps \<and>
     regs w' = regs w \<and> image w' = image w \<and> waits w' = waits w \<and>
     list_all (\<lambda>(a, bp). 0 \<le> BreakpointSize (arch s) \<and> bpLen s \<le> length (origInstr bp)) bps"
proof -
  from assms obtain bps s1 w1 where
    r: "rangeOrder (breakpoints s) s w = Ok bps s1 w1"
    and l: "liftBreakpoints_loop bps s1 w1 = Ok u s' w'"
    by (auto simp: liftBreakpoints_def andThen_Ok)
  from rangeOrder_Ok [OF r] liftBreakpoints_loop_Ok [OF l] show ?thesis
    by (intro exI [of _ bps]) simp
qed

text \<open>
  C3 (as amended). Installing pokes, for every entry of the table and at its pc, the first
  \<open>BreakpointSize\<close> bytes of the breakpoint instruction, and lifting the first
  \<open>BreakpointSize\<close> bytes of the saved instruction: each poke writes exactly
  \<open>BreakpointSize\<close> bytes, not \<open>MaxBreakpointSize\<close>.
\<close>

theorem patch_width:
  "(setBreakpoints s w = Ok u s' w' \<longrightarrow>
      (\<exists>as. mset as = mset (map fst (breakpoints s)) \<and>
         log w' = log w @ map (\<lambda>a. EvPoke (stoppedPid s) a
                    (take (bpLen s) (BreakpointInstr (arch s)))) as \<and>
         mem w' = foldl (\<lambda>m a. write_bytes m a (take (bpLen s) (BreakpointInstr (arch s))))
                    (mem w) as \<and>
         (as \<noteq> [] \<longrightarrow> length (take (bpLen s) (BreakpointInstr (arch s))) = bpLen s))) \<and>
   (liftBreakpoints s w = Ok u s' w' \<longrightarrow>
      (\<exists>bps. mset bps = mset (breakpoints s) \<and>
         log w' = log w @ map (\<lambda>(a, bp). EvPoke (stoppedPid s) a
                    (take (bpLen s) (origInstr bp))) bps \<and>
         mem w' = foldl (\<lambda>m (a, bp). write_bytes m a (take (bpLen s) (origInstr bp)))
                    (mem w) bps \<and>
         list_all (\<lambda>(a, bp). length (take (bpLen s) (origInstr bp)) = bpLen s) bps))"
proof (intro conjI impI)
  assume "setBreakpoints s w = Ok u s' w'"
  from setBreakpoints_Ok [OF this] obtain as where
    "mset as = mset (map fst (breakpoints s))"
    "log w' = log w @ map (\<lambda>a. EvPoke (stoppedPid s) a
                (take (bpLen s) (BreakpointInstr (arch s)))) as"
    "mem w' = foldl (\<lambda>m a. write_bytes m a (take (bpLen s) (BreakpointInstr (arch s)))) (mem w) as"
    "as \<noteq> [] \<longrightarrow> bpLen s \<le> length (BreakpointInstr (arch s))"
    by blast
  then show "\<exists>as. mset as = mset (map fst (breakpoints s)) \<and>
         log w' = log w @ map (\<lambda>a. EvPoke (stoppedPid s) a
                    (take (bpLen s) (BreakpointInstr (arch s)))) as \<and>
         mem w' = foldl (\<lambda>m a. write_bytes m a (take (bpLen s) (BreakpointInstr (arch s))))
                    (mem w) as \<and>
         (as \<noteq> [] \<longrightarrow> length (take (bpLen s) (BreakpointInstr (arch s))) = bpLen s)"
    by (intro exI [of _ as]) simp
next
  assume "liftBreakpoints s w = Ok u s' w'"
  from liftBreakpoints_Ok [OF this] obtain bps where
    "mset bps = mset (breakpoints s)"
    "log w' = log w @ map (\<lambda>(a, bp). EvPoke (stoppedPid s) a (take (bpLen s) (origInstr bp))) bps"
    "mem w' = foldl (\<lambda>m (a, bp). write_bytes m a (take (bpLen s) (origInstr bp))) (mem w) bps"
    "list_all (\<lambda>(a, bp). 0 \<le> BreakpointSize (arch s) \<and> bpLen s \<le> length (origInstr bp)) bps"
    by blast
  then show "\<exists>bps. mset bps = mset (breakpoints s) \<and>
         log w' = log w @ map (\<lambda>(a, bp). EvPoke (stoppedPid s) a
                    (take (bpLen s) (origInstr bp))) bps \<and>
         mem w' = foldl (\<lambda>m (a, bp). write_bytes m a (take (bpLen s) (origInstr bp)))
                    (mem w) bps \<and>
         list_all (\<lambda>(a, bp). length (take (bpLen s) (origInstr bp)) = bpLen s) bps"
    by (intro exI [of _ bps]) (auto simp: list_all_iff)
qed

theorem patch_width_witness:
  "\<exists>w1 w2 as bps.
     setBreakpoints exampleStopped (exampleWorld [] []) = Ok () exampleStopped w1 \<and>
     mset as = mset (map fst (breakpoints exampleStopped)) \<and>
     log w1 = log (exampleWorld [] []) @ map (\<lambda>a. EvPoke (stoppedPid exampleStopped) a
                (take (bpLen exampleStopped) (BreakpointInstr (arch exampleStopped)))) as \<and>
     liftBreakpoints exampleStopped (exampleWorld [] []) = Ok () exampleStopped w2 \<and>
     mset bps = mset (breakpoints exampleStopped) \<and>
     log w2 = log (exampleWorld [] []) @ map (\<lambda>(a, bp). EvPoke (stoppedPid exampleStopped) a
                (take (bpLen exampleStopped) (origInstr bp))) bps"
proof -
  obtain w1 where h1: "setBreakpoints exampleStopped (exampleWorld [] []) = Ok () exampleStopped w1"
    by (simp add: setBreakpoints_def rangeOrder_def andThen_def wrapErr_def ptracePoke_def
        traceCall_def fault_def emit_def slice_to_def exampleStopped_def exampleWorld_def
        New_def AMD64_def)
  obtain w2 where h2: "liftBreakpoints exampleStopped (exampleWorld [] []) = Ok () exampleStopped w2"
    by (simp add: liftBreakpoints_def rangeOrder_def andThen_def wrapErr_def ptracePoke_def
        traceCall_def fault_def emit_def slice_to_def exampleStopped_def exampleWorld_def
        New_def AMD64_def)
  from patch_width [of exampleStopped "exampleWorld [] []" "()" exampleStopped w1] h1
       patch_width [of exampleStopped "exampleWorld [] []" "()" exampleStopped w2] h2
  show ?thesis by blast
qed

text \<open>The claim as it stands: on the 64-bit x86 target each poke is one byte long, and
  \<open>MaxBreakpointSize\<close> is four.\<close>

theorem patch_width_counterexample:
  "(case setBreakpoints exampleStopped (exampleWorld [] []) of
      Ok u s w \<Rightarrow> log w = [EvPoke 100 0x1000 [0xCC]] \<and>
                  length [0xCC :: byte] \<noteq> MaxBreakpointSize (arch exampleStopped)
    | _ \<Rightarrow> False) \<and>
   (case liftBreakpoints exampleStopped (exampleWorld [] []) of
      Ok u s w \<Rightarrow> log w = [EvPoke 100 0x1000 [0x55]] \<and>
                  length [0x55 :: byte] \<noteq> MaxBreakpointSize (arch exampleStopped)
    | _ \<Rightarrow> False)"
  by code_simp

section \<open>Facts about waiting for a trap\<close>

lemma wait_Ok:
  "wait p s w = Ok (q, status) s1 w1 \<longleftrightarrow>
     s1 = s \<and> (\<exists>rg rest. waits w = Waited q status rg # rest \<and>
        w1 = w\<lparr>waits := rest, regs := (regs w)(q := rg),
               log := log w @ [EvWait p (Waited q status rg)]\<rparr>)"
  by (auto simp: wait_def emit_def split: list.splits wait_reply.splits)

lemma wait_Fail:
  "wait p s w = Fail e s1 w1 \<longleftrightarrow>
     s1 = s \<and> (\<exists>n rest. e = Errno n \<and> waits w = WaitError n # rest \<and>
        w1 = w\<lparr>waits := rest, log := log w @ [EvWait p (WaitError n)]\<rparr>)"
  by (auto simp: wait_def emit_def split: list.splits wait_reply.splits)

lemma wait_Hang: "wait p s w = Hang \<longleftrightarrow> waits w = []"
  by (auto simp: wait_def split: list.splits wait_reply.splits)

lemma wait_not_Panic: "wait p s w \<noteq> Panic"
  by (auto simp: wait_def split: list.splits wait_reply.splits)

lemma waitForTrap_trap:
  "wait p s w = Ok (q, status) s1 w1 \<Longrightarrow> isTrap status \<Longrightarrow> waitForTrap p s w = Ok q s1 w1"
  by (subst waitForTrap.simps) (simp add: wrapErr_def isTrap_def)

lemma waitForTrap_step:
  "wait p s w = Ok (q, status) s1 w1 \<Longrightarrow> \<not> isTrap status \<Longrightarrow>
   ptraceCont q 0 s1 w1 = Ok u s2 w2 \<Longrightarrow> waitForTrap p s w = waitForTrap p s2 w2"
  by (subst waitForTrap.simps) (auto simp: wrapErr_def isTrap_def)

lemma waitForTrap_waitErr:
  "wait p s w = Fail e s1 w1 \<Longrightarrow> waitForTrap p s w = Fail (Errorf ''wait'' e) s1 w1"
  by (subst waitForTrap.simps) (simp add: wrapErr_def)

lemma waitForTrap_contErr:
  "wait p s w = Ok (q, status) s1 w1 \<Longrightarrow> \<not> isTrap status \<Longrightarrow>
   ptraceCont q 0 s1 w1 = Fail e s2 w2 \<Longrightarrow>
   waitForTrap p s w = Fail (Errorf ''ptraceCont'' e) s2 w2"
  by (subst waitForTrap.simps) (auto simp: wrapErr_def isTrap_def)

lemma waitForTrap_exhausted: "waits w = [] \<Longrightarrow> waitForTrap p s w = Hang"
  by (subst waitForTrap.simps) (simp add: wrapErr_def wait_def)

lemma waitForTrap_Ok:
  "waitForTrap p s w = Ok wpid s' w' \<Longrightarrow>
     s' = s \<and> mem w' = mem w \<and> image w' = image w \<and>
     (\<exists>rs status r. waits w = rs @ Waited wpid status r # waits w' \<and>
        list_all otherStop rs \<and> isTrap status \<and> regs w' wpid = r \<and>
        log w' = log w @ resumed p rs @ [EvWait p (Waited wpid status r)])"
proof (induction p s w rule: waitForTrap.induct)
  case (1 p s w)
  have "\<exists>q status s1 w1. wait p s w = Ok (q, status) s1 w1"
  proof (cases "wait p s w")
    case Hang
    then have "waits w = []" by (simp add: wait_Hang)
    with "1.prems" show ?thesis by (simp add: waitForTrap_exhausted)
  next
    case Panic
    then show ?thesis by (simp add: wait_not_Panic)
  next
    case (Fail e1 s1 w1)
    with "1.prems" show ?thesis by (simp add: waitForTrap_waitErr)
  next
    case (Ok r s1 w1)
    then show ?thesis by (cases r) simp
  qed
  then obtain q status s1 w1 where wt: "wait p s w = Ok (q, status) s1 w1" by blast
  from wt obtain rg rest where s1: "s1 = s" and ws: "waits w = Waited q status rg # rest"
    and w1: "w1 = w\<lparr>waits := rest, regs := (regs w)(q := rg),
               log := log w @ [EvWait p (Waited q status rg)]\<rparr>"
    by (auto simp: wait_Ok)
  show ?case
  proof (cases "isTrap status")
    case True
    with wt have "waitForTrap p s w = Ok q s1 w1" by (simp add: waitForTrap_trap)
    with "1.prems" have "wpid = q" "s' = s1" "w' = w1"
      by simp_all
    with True s1 ws w1 show ?thesis
      by (auto simp: resumed_def intro!: exI [of _ "[]"])
  next
    case False
    have "\<exists>u s2 w2. ptraceCont q 0 s1 w1 = Ok u s2 w2"
    proof (cases "ptraceCont q 0 s1 w1")
      case (Fail e2 s2 w2)
      with "1.prems" wt False show ?thesis by (simp add: waitForTrap_contErr)
    qed (simp_all add: ptraceCont_def traceCall_total)
    then obtain u s2 w2 where ct: "ptraceCont q 0 s1 w1 = Ok u s2 w2" by blast
    with "1.prems" wt False have rec: "waitForTrap p s2 w2 = Ok wpid s' w'"
      by (simp add: waitForTrap_step)
    from ct have s2: "s2 = s1" and m2: "mem w2 = mem w1" "image w2 = image w1"
      "waits w2 = waits w1" "log w2 = log w1 @ [EvCont q 0]"
      by (auto simp: ptraceCont_def traceCall_Ok)
    have ih: "s' = s2 \<and> mem w' = mem w2 \<and> image w' = image w2 \<and>
     (\<exists>rs status r. waits w2 = rs @ Waited wpid status r # waits w' \<and>
        list_all otherStop rs \<and> isTrap status \<and> regs w' wpid = r \<and>
        log w' = log w2 @ resumed p rs @ [EvWait p (Waited wpid status r)])"
    proof (rule "1.IH" [where y = status and x = q])
      show "wrapErr ''wait'' (wait p s w) = Ok (q, status) s1 w1"
        using wt by (simp add: wrapErr_def)
      show "(q, status) = (q, status)" by simp
      show "\<not> (StopSignal status = SIGTRAP \<and> TrapCause status \<noteq> PTRACE_EVENT_CLONE)"
        using False by (simp add: isTrap_def)
      show "wrapErr ''ptraceCont'' (ptraceCont q 0 s1 w1) = Ok u s2 w2"
        using ct by (simp add: wrapErr_def)
      show "waitForTrap p s2 w2 = Ok wpid s' w'" by (rule rec)
    qed
    then obtain rs st r where
      "waits w2 = rs @ Waited wpid st r # waits w'" "list_all otherStop rs" "isTrap st"
      "regs w' wpid = r" "log w' = log w2 @ resumed p rs @ [EvWait p (Waited wpid st r)]"
      by blast
    moreover have "otherStop (Waited q status rg)" "task (Waited q status rg) = q"
      using False by (simp_all add: otherStop_def task_def)
    ultimately show ?thesis using ih s1 s2 m2 w1 ws
      by (auto simp: resumed_def intro!: exI [of _ "Waited q status rg # rs"])
  qed
qed

lemma waitForTrap_Fail:
  "waitForTrap p s w = Fail e s' w' \<Longrightarrow>
     s' = s \<and> mem w' = mem w \<and> image w' = image w \<and>
     (\<exists>rs x n. waits w = rs @ x # waits w' \<and> list_all otherStop rs \<and>
        (x = WaitError n \<and> e = Errorf ''wait'' (Errno n) \<and>
           log w' = log w @ resumed p rs @ [EvWait p x]
         \<or> otherStop x \<and> e = Errorf ''ptraceCont'' (Errno n) \<and>
           log w' = log w @ resumed p (rs @ [x])))"
proof (induction p s w rule: waitForTrap.induct)
  case (1 p s w)
  show ?case
  proof (cases "wait p s w")
    case Hang
    then have "waits w = []" by (simp add: wait_Hang)
    with "1.prems" show ?thesis by (simp add: waitForTrap_exhausted)
  next
    case Panic
    then show ?thesis by (simp add: wait_not_Panic)
  next
    case (Fail e1 s1 w1)
    then have "waitForTrap p s w = Fail (Errorf ''wait'' e1) s1 w1"
      by (rule waitForTrap_waitErr)
    with "1.prems" have e: "e = Errorf ''wait'' e1" "s' = s1" "w' = w1"
      by simp_all
    from Fail obtain n rest where "s1 = s" "e1 = Errno n" "waits w = WaitError n # rest"
        "w1 = w\<lparr>waits := rest, log := log w @ [EvWait p (WaitError n)]\<rparr>"
      by (auto simp: wait_Fail)
    with e show ?thesis
      by (auto simp: resumed_def intro!: exI [of _ "[]"])
  next
    case (Ok r s1 w1)
    obtain q status where r: "r = (q, status)" by (cases r)
    from Ok r obtain rg rest where s1: "s1 = s" and ws: "waits w = Waited q status rg # rest"
      and w1: "w1 = w\<lparr>waits := rest, regs := (regs w)(q := rg),
               log := log w @ [EvWait p (Waited q status rg)]\<rparr>"
      by (auto simp: wait_Ok)
    have nt: "\<not> isTrap status"
      using "1.prems" Ok r by (auto simp: waitForTrap_trap)
    then have os: "otherStop (Waited q status rg)" "task (Waited q status rg) = q"
      by (simp_all add: otherStop_def task_def)
    show ?thesis
    proof (cases "ptraceCont q 0 s1 w1")
      case Hang
      then show ?thesis by (simp add: ptraceCont_def traceCall_total)
    next
      case Panic
      then show ?thesis by (simp add: ptraceCont_def traceCall_total)
    next
      case (Fail e2 s2 w2)
      have "waitForTrap p s w = Fail (Errorf ''ptraceCont'' e2) s2 w2"
        using Ok r nt Fail by (simp add: waitForTrap_contErr)
      with "1.prems" have e: "e = Errorf ''ptraceCont'' e2" "s' = s2" "w' = w2"
        by simp_all
      from Fail obtain n fs where "s2 = s1" "e2 = Errno n"
        "w2 = w1\<lparr>log := log w1 @ [EvCont q 0], faults := fs\<rparr>"
        by (auto simp: ptraceCont_def traceCall_Fail)
      with e s1 ws w1 os show ?thesis
        by (auto simp: resumed_def intro!: exI [of _ "[]"])
    next
      case ct: (Ok u s2 w2)
      with "1.prems" Ok r nt have rec: "waitForTrap p s2 w2 = Fail e s' w'"
        by (simp add: waitForTrap_step)
      from ct have s2: "s2 = s1" and m2: "mem w2 = mem w1" "image w2 = image w1"
        "waits w2 = waits w1" "log w2 = log w1 @ [EvCont q 0]"
        by (auto simp: ptraceCont_def traceCall_Ok)
      have ih: "s' = s2 \<and> mem w' = mem w2 \<and> image w' = image w2 \<and>
     (\<exists>rs x n. waits w2 = rs @ x # waits w' \<and> list_all otherStop rs \<and>
        (x = WaitError n \<and> e = Errorf ''wait'' (Errno n) \<and>
           log w' = log w2 @ resumed p rs @ [EvWait p x]
         \<or> otherStop x \<and> e = Errorf ''ptraceCont'' (Errno n) \<and>
           log w' = log w2 @ resumed p (rs @ [x])))"
      proof (rule "1.IH" [where y = status and x = q])
        show "wrapErr ''wait'' (wait p s w) = Ok (q, status) s1 w1"
          using Ok r by (simp add: wrapErr_def)
        show "(q, status) = (q, status)" by simp
        show "\<not> (StopSignal status = SIGTRAP \<and> TrapCause status \<noteq> PTRACE_EVENT_CLONE)"
          using nt by (simp add: isTrap_def)
        show "wrapErr ''ptraceCont'' (ptraceCont q 0 s1 w1) = Ok u s2 w2"
          using ct by (simp add: wrapErr_def)
        show "waitForTrap p s2 w2 = Fail e s' w'" by (rule rec)
      qed
      then obtain rs x n where
        a: "waits w2 = rs @ x # waits w'" "list_all otherStop rs"
        and b: "x = WaitError n \<and> e = Errorf ''wait'' (Errno n) \<and>
           log w' = log w2 @ resumed p rs @ [EvWait p x]
         \<or> otherStop x \<and> e = Errorf ''ptraceCont'' (Errno n) \<and>
           log w' = log w2 @ resumed p (rs @ [x])"
        by blast
      have f1: "s' = s" "mem w' = mem w" "image w' = image w"
        using ih s1 s2 m2 w1 by simp_all
      have f2: "waits w = (Waited q status rg # rs) @ x # waits w'"
        using a ws w1 m2 by simp
      have f3: "list_all otherStop (Waited q status rg # rs)"
        using a os by simp
      have f4: "log w2 @ resumed p rs = log w @ resumed p (Waited q status rg # rs)"
        using m2 w1 os by (simp add: resumed_def)
      have f5: "log w2 @ resumed p (rs @ [x]) = log w @ resumed p ((Waited q status rg # rs) @ [x])"
        using m2 w1 os by (simp add: resumed_def)
      from b have "x = WaitError n \<and> e = Errorf ''wait'' (Errno n) \<and>
           log w' = log w @ resumed p (Waited q status rg # rs) @ [EvWait p x]
         \<or> otherStop x \<and> e = Errorf ''ptraceCont'' (Errno n) \<and>
           log w' = log w @ resumed p ((Waited q status rg # rs) @ [x])"
        using f4 f5 by (metis append.assoc)
      with f1 f2 f3 show ?thesis by blast
    qed
  qed
qed

section \<open>Facts about Resume\<close>

lemma ptraceGetRegs_Ok:
  "ptraceGetRegs p s w = Ok rg s1 w1 \<Longrightarrow>
     s1 = s \<and> rg = regs w p \<and> log w1 = log w @ [EvGetRegs p] \<and> mem w1 = mem w \<and>
     regs w1 = regs w \<and> image w1 = image w \<and> waits w1 = waits w"
  by (auto simp: ptraceGetRegs_def andThen_Ok traceCall_Ok)

lemma ptraceSetRegs_Ok:
  "ptraceSetRegs p r s w = Ok u s1 w1 \<Longrightarrow>
     s1 = s \<and> log w1 = log w @ [EvSetRegs p r] \<and> mem w1 = mem w \<and>
     regs w1 = (regs w)(p := r) \<and> image w1 = image w \<and> waits w1 = waits w"
  by (auto simp: ptraceSetRegs_def andThen_Ok traceCall_Ok)

lemma Resume_rewind_Ok:
  assumes "Resume_rewind s w = Ok st s' w'"
  shows "s' = s\<lparr>stoppedRegs := rewound s (regs w (stoppedPid s))\<rparr> \<and>
     st = \<lparr>PC = Rip (rewound s (regs w (stoppedPid s))), SP = Rsp (regs w (stoppedPid s))\<rparr> \<and>
     regs w' = (regs w)(stoppedPid s := rewound s (regs w (stoppedPid s))) \<and>
     log w' = log w @ [EvGetRegs (stoppedPid s),
                       EvSetRegs (stoppedPid s) (rewound s (regs w (stoppedPid s)))] \<and>
     mem w' = mem w \<and> image w' = image w \<and> waits w' = waits w"
proof -
  from assms obtain rg s1 w1 u s3 w3 where
    g: "ptraceGetRegs (stoppedPid s) s w = Ok rg s1 w1"
    and p: "ptraceSetRegs (stoppedPid s1) (rewound s1 rg) (s1\<lparr>stoppedRegs := rewound s1 rg\<rparr>) w1
              = Ok u s3 w3"
    and r: "st = \<lparr>PC = Rip (stoppedRegs s3), SP = Rsp (stoppedRegs s3)\<rparr>" "s' = s3" "w' = w3"
    by (auto simp: Resume_rewind_def andThen_Ok wrapErr_Ok rewound_def)
  from ptraceGetRegs_Ok [OF g] ptraceSetRegs_Ok [OF p] r show ?thesis
    by (simp add: rewound_def)
qed

lemma Resume_go_Ok:
  assumes "Resume_go s w = Ok u s' w'"
  shows "s' = s \<and> (\<exists>as. mset as = mset (map fst (breakpoints s)) \<and>
     log w' = log w @ installPokes s as @ [EvCont (stoppedPid s) 0] \<and>
     mem w' = foldl (\<lambda>m a. write_bytes m a (take (bpLen s) (BreakpointInstr (arch s)))) (mem w) as) \<and>
     regs w' = regs w \<and> image w' = image w \<and> waits w' = waits w"
proof -
  from assms obtain v s1 w1 where i: "setBreakpoints s w = Ok v s1 w1"
    and c: "ptraceCont (stoppedPid s1) 0 s1 w1 = Ok u s' w'"
    by (auto simp: Resume_go_def andThen_Ok wrapErr_Ok)
  from setBreakpoints_Ok [OF i] obtain as where
    a: "mset as = mset (map fst (breakpoints s))" "s1 = s"
    "log w1 = log w @ installPokes s as"
    "mem w1 = foldl (\<lambda>m a. write_bytes m a (take (bpLen s) (BreakpointInstr (arch s)))) (mem w) as"
    "regs w1 = regs w" "image w1 = image w" "waits w1 = waits w"
    unfolding installPokes_def by blast
  from c have "s' = s1" "log w' = log w1 @ [EvCont (stoppedPid s1) 0]" "mem w' = mem w1"
    "regs w' = regs w1" "image w' = image w1" "waits w' = waits w1"
    by (auto simp: ptraceCont_def traceCall_Ok)
  with a show ?thesis by auto
qed

lemma Resume_stop_Ok:
  assumes "Resume_stop s w = Ok st s' w'"
  shows "\<exists>rs wpid status r bps.
     s' = s\<lparr>stoppedPid := wpid, stoppedRegs := rewound s r\<rparr> \<and>
     st = \<lparr>PC = Rip (rewound s r), SP = Rsp r\<rparr> \<and>
     list_all otherStop rs \<and> isTrap status \<and>
     waits w = rs @ Waited wpid status r # waits w' \<and>
     mset bps = mset (breakpoints s) \<and>
     log w' = log w @ resumed (- 1) rs @ [EvWait (- 1) (Waited wpid status r)] @
              liftPokes s wpid bps @ [EvGetRegs wpid, EvSetRegs wpid (rewound s r)] \<and>
     mem w' = foldl (\<lambda>m (a, bp). write_bytes m a (take (bpLen s) (origInstr bp))) (mem w) bps \<and>
     regs w' wpid = rewound s r \<and> image w' = image w"
proof -
  from assms obtain wpid s1 w1 v s2 w2 where
    wt: "waitForTrap (- 1) s w = Ok wpid s1 w1"
    and lf: "liftBreakpoints (s1\<lparr>stoppedPid := wpid\<rparr>) w1 = Ok v s2 w2"
    and rw: "Resume_rewind s2 w2 = Ok st s' w'"
    by (auto simp: Resume_stop_def andThen_Ok split: outcome.splits)
  from waitForTrap_Ok [OF wt] obtain rs status r where
    a: "s1 = s" "mem w1 = mem w" "image w1 = image w"
       "waits w = rs @ Waited wpid status r # waits w1" "list_all otherStop rs" "isTrap status"
       "regs w1 wpid = r" "log w1 = log w @ resumed (- 1) rs @ [EvWait (- 1) (Waited wpid status r)]"
    by blast
  from liftBreakpoints_Ok [OF lf] obtain bps where
    b: "mset bps = mset (breakpoints s1)" "s2 = s1\<lparr>stoppedPid := wpid\<rparr>"
       "log w2 = log w1 @ liftPokes s1 wpid bps"
       "mem w2 = foldl (\<lambda>m (a, bp). write_bytes m a (take (bpLen s1) (origInstr bp))) (mem w1) bps"
       "regs w2 = regs w1" "image w2 = image w1" "waits w2 = waits w1"
    unfolding liftPokes_def by (auto simp: bpLen_def)
  note c = Resume_rewind_Ok [OF rw]
  have rwd: "rewound s2 (regs w2 (stoppedPid s2)) = rewound s r"
    using a b by (simp add: rewound_def)
  have sp: "stoppedPid s2 = wpid" using b by simp
  have ws: "waits w' = waits w1" using b c by simp
  show ?thesis
    apply (rule exI [of _ rs], rule exI [of _ wpid], rule exI [of _ status], rule exI [of _ r],
        rule exI [of _ bps])
    using a b c rwd sp ws by (simp add: bpLen_def)
qed

lemma Resume_wake_Ok:
  assumes "Resume_wake s w = Ok u s1 w1"
  shows "s1 = s\<lparr>procIsUp := True\<rparr> \<and> mem w1 = mem w \<and> image w1 = image w \<and>
    (\<not> procIsUp s \<and>
       (\<exists>rs q status r. list_all otherStop rs \<and> isTrap status \<and>
          log w1 = log w @ resumed (stoppedPid s) rs @
                   [EvWait (stoppedPid s) (Waited q status r),
                    EvSetOptions (stoppedPid s) PTRACE_O_TRACECLONE])
     \<or> procIsUp s \<and> map_of (breakpoints s) (Rip (stoppedRegs s)) \<noteq> None \<and>
       (\<exists>rs q status r. list_all otherStop rs \<and> isTrap status \<and>
          log w1 = log w @ [EvSingleStep (stoppedPid s)] @ resumed (stoppedPid s) rs @
                   [EvWait (stoppedPid s) (Waited q status r)])
     \<or> procIsUp s \<and> map_of (breakpoints s) (Rip (stoppedRegs s)) = None \<and> w1 = w)"
proof (cases "procIsUp s")
  case False
  with assms obtain q s0 w0 where
    wt: "waitForTrap (stoppedPid s) (s\<lparr>procIsUp := True\<rparr>) w = Ok q s0 w0"
    and so: "ptraceSetOptions (stoppedPid s0) PTRACE_O_TRACECLONE s0 w0 = Ok u s1 w1"
    by (auto simp: Resume_wake_def andThen_Ok wrapErr_Ok)
  from waitForTrap_Ok [OF wt] obtain rs status r where
    a: "s0 = s\<lparr>procIsUp := True\<rparr>" "mem w0 = mem w" "image w0 = image w"
       "list_all otherStop rs" "isTrap status"
       "log w0 = log w @ resumed (stoppedPid s) rs @ [EvWait (stoppedPid s) (Waited q status r)]"
    by blast
  from so have b: "s1 = s0" "mem w1 = mem w0" "image w1 = image w0"
    "log w1 = log w0 @ [EvSetOptions (stoppedPid s0) PTRACE_O_TRACECLONE]"
    by (auto simp: ptraceSetOptions_def traceCall_Ok)
  have "\<exists>rs q status r. list_all otherStop rs \<and> isTrap status \<and>
          log w1 = log w @ resumed (stoppedPid s) rs @
                   [EvWait (stoppedPid s) (Waited q status r),
                    EvSetOptions (stoppedPid s) PTRACE_O_TRACECLONE]"
    using a b by (intro exI [of _ rs] exI [of _ q] exI [of _ status] exI [of _ r]) simp
  with False a b show ?thesis by simp
next
  case up: True
  show ?thesis
  proof (cases "map_of (breakpoints s) (Rip (stoppedRegs s)) = None")
    case True
    with up assms show ?thesis by (cases s) (auto simp: Resume_wake_def)
  next
    case False
    with up assms obtain v s0 w0 q where
      st: "ptraceSingleStep (stoppedPid s) s w = Ok v s0 w0"
      and wt: "waitForTrap (stoppedPid s0) s0 w0 = Ok q s1 w1"
      by (auto simp: Resume_wake_def andThen_Ok wrapErr_Ok)
    from st have b: "s0 = s" "mem w0 = mem w" "image w0 = image w"
      "log w0 = log w @ [EvSingleStep (stoppedPid s)]"
      by (auto simp: ptraceSingleStep_def traceCall_Ok)
    from waitForTrap_Ok [OF wt] obtain rs status r where
      a: "s1 = s0" "mem w1 = mem w0" "image w1 = image w0"
         "list_all otherStop rs" "isTrap status"
         "log w1 = log w0 @ resumed (stoppedPid s0) rs @ [EvWait (stoppedPid s0) (Waited q status r)]"
      by blast
    have "\<exists>rs q status r. list_all otherStop rs \<and> isTrap status \<and>
          log w1 = log w @ [EvSingleStep (stoppedPid s)] @ resumed (stoppedPid s) rs @
                   [EvWait (stoppedPid s) (Waited q status r)]"
      using a b by (intro exI [of _ rs] exI [of _ q] exI [of _ status] exI [of _ r]) simp
    moreover have "s1 = s\<lparr>procIsUp := True\<rparr>" using a b up by (cases s) simp
    ultimately show ?thesis using up False a b by simp
  qed
qed

lemma isPoke_liftPokes: "list_all isPoke (liftPokes s p bps)"
  by (induction bps) (auto simp: liftPokes_def isPoke_def)

lemma isPoke_installPokes: "list_all isPoke (installPokes s as)"
  by (induction as) (auto simp: installPokes_def isPoke_def)

lemma Resume_Ok_phases:
  assumes "Resume s w = Ok st s' w'"
  shows "proc s \<noteq> None \<and>
    (\<exists>u1 w1 u2 w2. Resume_wake s w = Ok u1 (s\<lparr>procIsUp := True\<rparr>) w1 \<and>
       Resume_go (s\<lparr>procIsUp := True\<rparr>) w1 = Ok u2 (s\<lparr>procIsUp := True\<rparr>) w2 \<and>
       Resume_stop (s\<lparr>procIsUp := True\<rparr>) w2 = Ok st s' w')"
proof -
  from assms obtain u1 s1 w1 u2 s2 w2 where p: "proc s \<noteq> None"
    and a: "Resume_wake s w = Ok u1 s1 w1" and b: "Resume_go s1 w1 = Ok u2 s2 w2"
    and c: "Resume_stop s2 w2 = Ok st s' w'"
    by (auto simp: Resume_def andThen_Ok split: if_splits)
  from Resume_wake_Ok [OF a] have "s1 = s\<lparr>procIsUp := True\<rparr>" by simp
  moreover from Resume_go_Ok [OF b] have "s2 = s1" by simp
  ultimately show ?thesis using p a b c by blast
qed

text \<open>
  C2. When \<^verbatim>\<open>Resume\<close> returns without an error, the last wait of the trace is the one
  that produced the stop of the task it now holds as stopped, with the register file \<open>r\<close>;
  the status has the program counter \<open>Rip r - BreakpointSize\<close> and the stack pointer
  \<open>Rsp r\<close>; the register file with the program counter so rewound is written back, so
  that the program counter of the debuggee reads as the returned one.
\<close>

theorem program_counter_rewind:
  assumes "Resume s w = Ok st s' w'"
  shows "\<exists>pre status r pokes.
     log w' = pre @ [EvWait (- 1) (Waited (stoppedPid s') status r)] @ pokes @
              [EvGetRegs (stoppedPid s'), EvSetRegs (stoppedPid s') (stoppedRegs s')] \<and>
     list_all isPoke pokes \<and> isTrap status \<and>
     PC st = Rip r - of_int (BreakpointSize (arch s)) \<and> SP st = Rsp r \<and>
     stoppedRegs s' = r\<lparr>Rip := PC st\<rparr> \<and>
     regs w' (stoppedPid s') = r\<lparr>Rip := PC st\<rparr> \<and>
     Rip (regs w' (stoppedPid s')) = PC st"
proof -
  let ?s = "s\<lparr>procIsUp := True\<rparr>"
  from Resume_Ok_phases [OF assms] obtain w2 where
    c: "Resume_stop ?s w2 = Ok st s' w'" by blast
  from Resume_stop_Ok [OF c] obtain rs wpid status r bps where
    d: "s' = ?s\<lparr>stoppedPid := wpid, stoppedRegs := rewound ?s r\<rparr>"
       "st = \<lparr>PC = Rip (rewound ?s r), SP = Rsp r\<rparr>" "isTrap status"
       "log w' = log w2 @ resumed (- 1) rs @ [EvWait (- 1) (Waited wpid status r)] @
              liftPokes ?s wpid bps @ [EvGetRegs wpid, EvSetRegs wpid (rewound ?s r)]"
       "regs w' wpid = rewound ?s r"
    by blast
  show ?thesis
    apply (rule exI [of _ "log w2 @ resumed (- 1) rs"], rule exI [of _ status],
        rule exI [of _ r], rule exI [of _ "liftPokes ?s wpid bps"])
    using d by (simp add: isPoke_liftPokes rewound_def)
qed

theorem program_counter_rewind_witness:
  "\<exists>st s' w'. Resume exampleStopped stepThenTrap = Ok st s' w' \<and> PC st = 0x1000 \<and>
     (\<exists>pre status r pokes.
       log w' = pre @ [EvWait (- 1) (Waited (stoppedPid s') status r)] @ pokes @
                [EvGetRegs (stoppedPid s'), EvSetRegs (stoppedPid s') (stoppedRegs s')] \<and>
       list_all isPoke pokes \<and> isTrap status \<and>
       PC st = Rip r - of_int (BreakpointSize (arch exampleStopped)) \<and> SP st = Rsp r \<and>
       stoppedRegs s' = r\<lparr>Rip := PC st\<rparr> \<and>
       regs w' (stoppedPid s') = r\<lparr>Rip := PC st\<rparr> \<and>
       Rip (regs w' (stoppedPid s')) = PC st)"
proof -
  have "case Resume exampleStopped stepThenTrap of Ok st s' w' \<Rightarrow> PC st = 0x1000 | _ \<Rightarrow> False"
    by code_simp
  then obtain st s' w' where h: "Resume exampleStopped stepThenTrap = Ok st s' w'"
    and pc: "PC st = 0x1000"
    by (cases "Resume exampleStopped stepThenTrap") simp_all
  from program_counter_rewind [OF h] h pc show ?thesis by blast
qed

lemma grows_refl: "grows w w"
  by (simp add: grows_def)

lemma grows_trans: "grows w w1 \<Longrightarrow> grows w1 w2 \<Longrightarrow> grows w w2"
  by (auto simp: grows_def)





lemma ptracePeek_returns:
  "returns (ptracePeek p a n s w) s1 w1 \<Longrightarrow>
     s1 = s \<and> grows w w1 \<and> mem w1 = mem w \<and> regs w1 = regs w \<and> image w1 = image w"
  by (auto simp: ptracePeek_def returns_iff andThen_Ok andThen_Fail traceCall_Ok traceCall_Fail grows_def)

lemma ptraceGetRegs_returns:
  "returns (ptraceGetRegs p s w) s1 w1 \<Longrightarrow>
     s1 = s \<and> grows w w1 \<and> mem w1 = mem w \<and> regs w1 = regs w \<and> image w1 = image w"
  by (auto simp: ptraceGetRegs_def returns_iff andThen_Ok andThen_Fail traceCall_Ok traceCall_Fail grows_def)

lemma ptraceSetRegs_returns:
  "returns (ptraceSetRegs p r s w) s1 w1 \<Longrightarrow>
     s1 = s \<and> grows w w1 \<and> mem w1 = mem w \<and> image w1 = image w"
  by (auto simp: ptraceSetRegs_def returns_iff andThen_Ok andThen_Fail traceCall_Ok traceCall_Fail grows_def)

lemma rangeOrder_returns:
  "returns (rangeOrder xs s w) s1 w1 \<Longrightarrow>
     s1 = s \<and> grows w w1 \<and> mem w1 = mem w \<and> regs w1 = regs w \<and> image w1 = image w"
  by (auto simp: rangeOrder_def returns_iff grows_def split: list.splits)










lemma returns_Fail: "m = Fail e s w \<Longrightarrow> returns m s w"
  by (simp add: returns_iff)

lemma returns_Ok: "m = Ok y s w \<Longrightarrow> returns m s w"
  by (simp add: returns_iff)




section \<open>Facts about the file table\<close>

lemma findSlot_spec:
  "i0 \<le> length fs \<Longrightarrow>
     i0 \<le> findSlot fs i0 \<and> findSlot fs i0 \<le> length fs \<and>
     (\<forall>j. i0 \<le> j \<and> j < findSlot fs i0 \<longrightarrow> fs ! j \<noteq> None) \<and>
     (findSlot fs i0 < length fs \<longrightarrow> fs ! findSlot fs i0 = None)"
proof (induction fs i0 rule: findSlot.induct)
  case (1 fs i)
  show ?case
  proof (cases "i < length fs \<and> fs ! i \<noteq> None")
    case True
    then have eq: "findSlot fs i = findSlot fs (Suc i)" by (subst findSlot.simps) simp
    from True have "Suc i \<le> length fs" by simp
    from "1.IH" [OF True this] have
      ih: "Suc i \<le> findSlot fs (Suc i)" "findSlot fs (Suc i) \<le> length fs"
        "\<forall>j. Suc i \<le> j \<and> j < findSlot fs (Suc i) \<longrightarrow> fs ! j \<noteq> None"
        "findSlot fs (Suc i) < length fs \<longrightarrow> fs ! findSlot fs (Suc i) = None"
      by simp_all
    have "\<forall>j. i \<le> j \<and> j < findSlot fs (Suc i) \<longrightarrow> fs ! j \<noteq> None"
    proof (intro allI impI)
      fix j assume j: "i \<le> j \<and> j < findSlot fs (Suc i)"
      show "fs ! j \<noteq> None"
      proof (cases "j = i")
        case True
        with \<open>i < length fs \<and> fs ! i \<noteq> None\<close> show ?thesis by simp
      next
        case False
        with j have "Suc i \<le> j" by simp
        with j ih(3) show ?thesis by simp
      qed
    qed
    with ih eq show ?thesis by simp
  next
    case False
    have eq: "findSlot fs i = i" by (subst findSlot.simps) (use False in auto)
    with False "1.prems" show ?thesis by auto
  qed
qed

text \<open>
  C9. A successful \<^verbatim>\<open>Open\<close> stores the new file record at the least index whose slot is
  empty, or at the end of the table when no slot is empty; the table grows, by one, only
  in the second case; every other slot and every other field of the server stay as they
  are.
\<close>

theorem lowest_free_slot:
  assumes "Open x name md s w = Ok u s' w'"
  shows "\<exists>i fe. i \<le> length (files s) \<and> (\<forall>j<i. files s ! j \<noteq> None) \<and>
     index fe = int i \<and> mode fe = md \<and>
     (i < length (files s) \<longrightarrow>
        files s ! i = None \<and> files s' = (files s)[i := Some fe] \<and>
        length (files s') = length (files s)) \<and>
     (i = length (files s) \<longrightarrow>
        files s' = files s @ [Some fe] \<and> length (files s') = Suc (length (files s))) \<and>
     (\<forall>j<length (files s). j \<noteq> i \<longrightarrow> files s' ! j = files s ! j) \<and>
     s' = s\<lparr>files := files s'\<rparr> \<and> w' = w"
proof -
  define i where "i = findSlot (files s) 0"
  from assms obtain osFile where
    r: "Ok u s' w' =
      (if i = length (files s)
       then Ok () (s\<lparr>files := files s @ [Some \<lparr>mode = md, index = int i, handle = osFile\<rparr>]\<rparr>) w
       else Ok () (s\<lparr>files := (files s)[i := Some \<lparr>mode = md, index = int i, handle = osFile\<rparr>]\<rparr>) w)"
    unfolding Open_def i_def by (auto split: option.splits sum.splits if_splits)
  let ?fe = "\<lparr>mode = md, index = int i, handle = osFile\<rparr>"
  from findSlot_spec [of 0 "files s"] have
    sp: "i \<le> length (files s)" "\<forall>j<i. files s ! j \<noteq> None"
      "i < length (files s) \<longrightarrow> files s ! i = None"
    by (simp_all add: i_def)
  show ?thesis
  proof (cases "i = length (files s)")
    case True
    with r have "s' = s\<lparr>files := files s @ [Some ?fe]\<rparr>" "w' = w" by simp_all
    with True sp show ?thesis
      by (intro exI [of _ i] exI [of _ ?fe]) (simp add: nth_append)
  next
    case False
    with r have "s' = s\<lparr>files := (files s)[i := Some ?fe]\<rparr>" "w' = w" by simp_all
    with False sp show ?thesis
      by (intro exI [of _ i] exI [of _ ?fe]) simp
  qed
qed

theorem lowest_free_slot_witness:
  "\<exists>s'. Open exampleExtern ''/etc/hostname'' ''r'' twoFiles (exampleWorld [] []) =
         Ok () s' (exampleWorld [] []) \<and>
     files s' = [Some \<lparr>mode = ''r'', index = 0, handle = 7\<rparr>,
                 Some \<lparr>mode = ''r'', index = 1, handle = 3\<rparr>,
                 Some \<lparr>mode = ''r'', index = 2, handle = 9\<rparr>] \<and>
     (\<exists>i fe. i \<le> length (files twoFiles) \<and> (\<forall>j<i. files twoFiles ! j \<noteq> None) \<and>
        index fe = int i \<and> (i < length (files twoFiles) \<longrightarrow> files s' = (files twoFiles)[i := Some fe]))"
proof -
  have "case Open exampleExtern ''/etc/hostname'' ''r'' twoFiles (exampleWorld [] []) of
          Ok u s' w' \<Rightarrow> files s' = [Some \<lparr>mode = ''r'', index = 0, handle = 7\<rparr>,
                 Some \<lparr>mode = ''r'', index = 1, handle = 3\<rparr>,
                 Some \<lparr>mode = ''r'', index = 2, handle = 9\<rparr>]
        | _ \<Rightarrow> False"
    by code_simp
  then obtain u s' w' where
    h: "Open exampleExtern ''/etc/hostname'' ''r'' twoFiles (exampleWorld [] []) = Ok u s' w'"
    and f: "files s' = [Some \<lparr>mode = ''r'', index = 0, handle = 7\<rparr>,
                 Some \<lparr>mode = ''r'', index = 1, handle = 3\<rparr>,
                 Some \<lparr>mode = ''r'', index = 2, handle = 9\<rparr>]"
    by (cases "Open exampleExtern ''/etc/hostname'' ''r'' twoFiles (exampleWorld [] [])") simp_all
  from lowest_free_slot [OF h] h f show ?thesis by (cases u) blast
qed

section \<open>Facts about Breakpoint\<close>

lemma ptracePeek_Ok:
  "ptracePeek p a n s w = Ok bytes s1 w1 \<Longrightarrow>
     s1 = s \<and> bytes = read_bytes (mem w) a n \<and> log w1 = log w @ [EvPeek p a n] \<and>
     mem w1 = mem w \<and> regs w1 = regs w \<and> image w1 = image w \<and> waits w1 = waits w"
  by (auto simp: ptracePeek_def andThen_Ok traceCall_Ok)

lemma length_read_bytes: "length (read_bytes m a n) = n"
  by (induction n arbitrary: a) simp_all

text \<open>One round of the loop of \<^verbatim>\<open>Breakpoint\<close>: it returns in that round with the state
  as it was, or it has inserted the entry of the address and goes on.\<close>

lemma Breakpoint_loop_round:
  assumes "returns (Breakpoint_loop x (a # as) bp s w) s' w'"
  shows "(s' = s \<and> grows w w' \<and> mem w' = mem w \<and> regs w' = regs w \<and> image w' = image w \<and>
          (\<exists>e. Breakpoint_loop x (a # as) bp s w = Fail e s' w'))
    \<or> (\<exists>q w1. evalAddress x a = Inr q \<and> map_of (breakpoints s) q = None \<and>
          0 \<le> BreakpointSize (arch s) \<and> bpLen s \<le> length (origInstr bp) \<and>
          grows w w1 \<and> mem w1 = mem w \<and> regs w1 = regs w \<and> image w1 = image w \<and>
          Breakpoint_loop x (a # as) bp s w =
            Breakpoint_loop x as (captured s w bp q)
              (s\<lparr>breakpoints := AList.update q (captured s w bp q) (breakpoints s)\<rparr>) w1)"
proof (cases "evalAddress x a")
  case (Inl e)
  with assms show ?thesis by (auto simp: returns_iff grows_refl)
next
  case (Inr q)
  show ?thesis
  proof (cases "map_of (breakpoints s) q = None")
    case False
    with Inr assms show ?thesis by (auto simp: returns_iff grows_refl)
  next
    case True
    show ?thesis
    proof (cases "slice_to (origInstr bp) (BreakpointSize (arch s))")
      case None
      with Inr True assms show ?thesis by (simp add: returns_def)
    next
      case (Some buf)
      then have buf: "0 \<le> BreakpointSize (arch s)" "bpLen s \<le> length (origInstr bp)"
        "length buf = bpLen s"
        by (auto simp: slice_to_Some bpLen_def)
      show ?thesis
      proof (cases "ptracePeek (stoppedPid s) q (bpLen s) s w")
        case Hang
        with Inr True Some buf assms show ?thesis
          by (simp add: returns_def andThen_def wrapErr_def)
      next
        case Panic
        with Inr True Some buf assms show ?thesis
          by (simp add: returns_def andThen_def wrapErr_def)
      next
        case (Fail e s1 w1)
        from ptracePeek_returns [OF returns_Fail [OF Fail]] Fail Inr True Some buf assms
        show ?thesis
          by (auto simp: returns_def andThen_def wrapErr_def)
      next
        case (Ok bytes s1 w1)
        from ptracePeek_Ok [OF Ok] ptracePeek_returns [OF returns_Ok [OF Ok]]
        have p: "s1 = s" "bytes = read_bytes (mem w) q (bpLen s)" "grows w w1"
          "mem w1 = mem w" "regs w1 = regs w" "image w1 = image w" by simp_all
        have "Breakpoint_loop x (a # as) bp s w =
            Breakpoint_loop x as (captured s w bp q)
              (s\<lparr>breakpoints := AList.update q (captured s w bp q) (breakpoints s)\<rparr>) w1"
          using Inr True Some buf Ok p by (simp add: andThen_def wrapErr_def captured_def)
        with Inr True buf p show ?thesis by blast
      qed
    qed
  qed
qed

lemma captured_take: "take (bpLen s) (origInstr (captured s w bp q)) = read_bytes (mem w) q (bpLen s)"
  by (simp add: captured_def length_read_bytes)

lemma captured_length: "length (origInstr (captured s w bp q)) = max (bpLen s) (length (origInstr bp))"
  by (simp add: captured_def length_read_bytes max_def)

lemma Breakpoint_loop_returns:
  "returns (Breakpoint_loop x as bp s w) s' w' \<Longrightarrow>
     s' = s\<lparr>breakpoints := breakpoints s'\<rparr> \<and> grows w w' \<and> mem w' = mem w \<and>
     regs w' = regs w \<and> image w' = image w \<and>
     (\<forall>p b. map_of (breakpoints s) p = Some b \<longrightarrow> map_of (breakpoints s') p = Some b) \<and>
     (\<forall>p b. map_of (breakpoints s') p = Some b \<longrightarrow>
        map_of (breakpoints s) p = Some b \<or>
        take (bpLen s) (origInstr b) = read_bytes (mem w) p (bpLen s)) \<and>
     (distinct (map fst (breakpoints s)) \<longrightarrow> distinct (map fst (breakpoints s')))"
proof (induction as arbitrary: bp s w)
  case Nil
  then show ?case by (simp add: returns_iff grows_refl)
next
  case (Cons a as)
  from Breakpoint_loop_round [OF Cons.prems] show ?case
  proof
    assume "s' = s \<and> grows w w' \<and> mem w' = mem w \<and> regs w' = regs w \<and> image w' = image w \<and>
          (\<exists>e. Breakpoint_loop x (a # as) bp s w = Fail e s' w')"
    then show ?thesis by simp
  next
    assume "\<exists>q w1. evalAddress x a = Inr q \<and> map_of (breakpoints s) q = None \<and>
          0 \<le> BreakpointSize (arch s) \<and> bpLen s \<le> length (origInstr bp) \<and>
          grows w w1 \<and> mem w1 = mem w \<and> regs w1 = regs w \<and> image w1 = image w \<and>
          Breakpoint_loop x (a # as) bp s w =
            Breakpoint_loop x as (captured s w bp q)
              (s\<lparr>breakpoints := AList.update q (captured s w bp q) (breakpoints s)\<rparr>) w1"
    then obtain q w1 where q: "map_of (breakpoints s) q = None"
      and w1: "grows w w1" "mem w1 = mem w" "regs w1 = regs w" "image w1 = image w"
      and eq: "Breakpoint_loop x (a # as) bp s w =
            Breakpoint_loop x as (captured s w bp q)
              (s\<lparr>breakpoints := AList.update q (captured s w bp q) (breakpoints s)\<rparr>) w1"
      by blast
    let ?c = "captured s w bp q"
    let ?s = "s\<lparr>breakpoints := AList.update q ?c (breakpoints s)\<rparr>"
    from Cons.prems eq have "returns (Breakpoint_loop x as ?c ?s w1) s' w'" by simp
    note ih = Cons.IH [OF this]
    have len: "bpLen ?s = bpLen s" by (simp add: bpLen_def)
    have mo: "map_of (AList.update q ?c (breakpoints s)) = (map_of (breakpoints s))(q \<mapsto> ?c)"
      by (rule update_conv')
    have 1: "s' = s\<lparr>breakpoints := breakpoints s'\<rparr>"
    proof -
      from ih have "s' = ?s\<lparr>breakpoints := breakpoints s'\<rparr>" by blast
      then show ?thesis by simp
    qed
    have 2: "grows w w'" "mem w' = mem w" "regs w' = regs w" "image w' = image w"
      using ih w1 by (auto intro: grows_trans)
    have 3: "\<forall>p b. map_of (breakpoints s) p = Some b \<longrightarrow> map_of (breakpoints s') p = Some b"
    proof (intro allI impI)
      fix p b assume "map_of (breakpoints s) p = Some b"
      with q have "map_of (breakpoints ?s) p = Some b" by (auto simp: mo)
      with ih show "map_of (breakpoints s') p = Some b" by blast
    qed
    have 4: "\<forall>p b. map_of (breakpoints s') p = Some b \<longrightarrow>
        map_of (breakpoints s) p = Some b \<or>
        take (bpLen s) (origInstr b) = read_bytes (mem w) p (bpLen s)"
    proof (intro allI impI)
      fix p b assume "map_of (breakpoints s') p = Some b"
      with ih have "map_of (breakpoints ?s) p = Some b \<or>
        take (bpLen ?s) (origInstr b) = read_bytes (mem w1) p (bpLen ?s)" by blast
      then show "map_of (breakpoints s) p = Some b \<or>
        take (bpLen s) (origInstr b) = read_bytes (mem w) p (bpLen s)"
        using w1 captured_take [of s w bp q] by (auto simp: mo len split: if_splits)
    qed
    have 5: "distinct (map fst (breakpoints s)) \<longrightarrow> distinct (map fst (breakpoints s'))"
    proof
      assume "distinct (map fst (breakpoints s))"
      then have "distinct (map fst (breakpoints ?s))" by (simp add: distinct_update)
      with ih show "distinct (map fst (breakpoints s'))" by blast
    qed
    from 1 2 3 4 5 show ?thesis by blast
  qed
qed

lemma Breakpoint_returns:
  assumes "returns (Breakpoint x address s w) s' w'"
  shows "s' = s\<lparr>breakpoints := breakpoints s'\<rparr> \<and> grows w w' \<and> mem w' = mem w \<and>
     regs w' = regs w \<and> image w' = image w \<and>
     (\<forall>p b. map_of (breakpoints s) p = Some b \<longrightarrow> map_of (breakpoints s') p = Some b) \<and>
     (\<forall>p b. map_of (breakpoints s') p = Some b \<longrightarrow>
        map_of (breakpoints s) p = Some b \<or>
        take (bpLen s) (origInstr b) = read_bytes (mem w) p (bpLen s)) \<and>
     (distinct (map fst (breakpoints s)) \<longrightarrow> distinct (map fst (breakpoints s')))"
proof (cases "eval x address")
  case (Inl e)
  with assms have "s' = s" "w' = w" by (auto simp: Breakpoint_def returns_iff)
  then show ?thesis by (simp add: grows_refl)
next
  case (Inr targets)
  with assms have "returns (Breakpoint_loop x targets
            \<lparr>pc = 0, origInstr = replicate (MaxBreakpointSize (arch s)) 0\<rparr> s w) s' w'"
    by (simp add: Breakpoint_def)
  then show ?thesis by (rule Breakpoint_loop_returns)
qed

lemma Breakpoint_loop_Ok_fresh:
  "Breakpoint_loop x as bp s w = Ok u s' w' \<Longrightarrow> map_of (breakpoints s) p \<noteq> None \<Longrightarrow>
     \<forall>a\<in>set as. evalAddress x a \<noteq> Inr p"
proof (induction as arbitrary: bp s w)
  case Nil
  then show ?case by simp
next
  case (Cons a as)
  from Cons.prems(1) have r: "returns (Breakpoint_loop x (a # as) bp s w) s' w'"
    by (rule returns_Ok)
  from Breakpoint_loop_round [OF r] Cons.prems(1)
  obtain q w1 where q: "evalAddress x a = Inr q" "map_of (breakpoints s) q = None"
    and eq: "Breakpoint_loop x (a # as) bp s w =
            Breakpoint_loop x as (captured s w bp q)
              (s\<lparr>breakpoints := AList.update q (captured s w bp q) (breakpoints s)\<rparr>) w1"
    by auto
  let ?s = "s\<lparr>breakpoints := AList.update q (captured s w bp q) (breakpoints s)\<rparr>"
  from Cons.prems(2) have "map_of (breakpoints ?s) p \<noteq> None" by (simp add: update_conv')
  with Cons.IH [of "captured s w bp q" ?s w1] Cons.prems(1) eq
  have "\<forall>a\<in>set as. evalAddress x a \<noteq> Inr p" by simp
  moreover from q Cons.prems(2) have "evalAddress x a \<noteq> Inr p" by auto
  ultimately show ?case by simp
qed

text \<open>
  C4. While the table has an entry at a pc: a \<^verbatim>\<open>Breakpoint\<close> request whose expression
  resolves to that pc (as its first or only address) returns the error of the duplicate
  and leaves the state as it was; no \<^verbatim>\<open>Breakpoint\<close> request with an address that resolves
  to that pc returns without an error; and whatever a \<^verbatim>\<open>Breakpoint\<close> request returns, the
  entry and its saved instruction are as before.
\<close>

theorem duplicate_rejection:
  assumes "map_of (breakpoints s) p = Some b"
  shows "(eval x address = Inr (a # as) \<and> evalAddress x a = Inr p \<longrightarrow>
            Breakpoint x address s w = Fail (BreakpointAlreadySet p) s w) \<and>
         (eval x address = Inr targets \<and> (\<exists>a\<in>set targets. evalAddress x a = Inr p) \<longrightarrow>
            (\<forall>u s' w'. Breakpoint x address s w \<noteq> Ok u s' w')) \<and>
         (returns (Breakpoint x address s w) s' w' \<longrightarrow> map_of (breakpoints s') p = Some b)"
proof (intro conjI impI)
  assume "eval x address = Inr (a # as) \<and> evalAddress x a = Inr p"
  with assms show "Breakpoint x address s w = Fail (BreakpointAlreadySet p) s w"
    by (simp add: Breakpoint_def)
next
  assume h: "eval x address = Inr targets \<and> (\<exists>a\<in>set targets. evalAddress x a = Inr p)"
  show "\<forall>u s' w'. Breakpoint x address s w \<noteq> Ok u s' w'"
  proof (intro allI notI)
    fix u s' w' assume "Breakpoint x address s w = Ok u s' w'"
    with h have "Breakpoint_loop x targets
            \<lparr>pc = 0, origInstr = replicate (MaxBreakpointSize (arch s)) 0\<rparr> s w = Ok u s' w'"
      by (simp add: Breakpoint_def)
    from Breakpoint_loop_Ok_fresh [OF this, of p] assms h show False by auto
  qed
next
  assume "returns (Breakpoint x address s w) s' w'"
  from Breakpoint_returns [OF this] assms show "map_of (breakpoints s') p = Some b" by blast
qed

theorem duplicate_rejection_witness:
  "map_of (breakpoints exampleStopped) 0x1000 = Some \<lparr>pc = 0x1000, origInstr = [0x55, 0, 0, 0]\<rparr> \<and>
   eval exampleExtern ''sym:main.foo'' = Inr [''0x1000''] \<and>
   evalAddress exampleExtern ''0x1000'' = Inr 0x1000 \<and>
   Breakpoint exampleExtern ''sym:main.foo'' exampleStopped (exampleWorld [] []) =
     Fail (BreakpointAlreadySet 0x1000) exampleStopped (exampleWorld [] [])"
proof -
  have h: "map_of (breakpoints exampleStopped) 0x1000 =
             Some \<lparr>pc = 0x1000, origInstr = [0x55, 0, 0, 0]\<rparr>"
    by (simp add: exampleStopped_def New_def)
  have e: "eval exampleExtern ''sym:main.foo'' = Inr [''0x1000'']"
    by (simp add: eval_def HasPrefix_def exampleExtern_def)
  have a: "evalAddress exampleExtern ''0x1000'' = Inr 0x1000"
    by (simp add: evalAddress_def exampleExtern_def)
  from duplicate_rejection [OF h, of exampleExtern "''sym:main.foo''" "''0x1000''" "[]"
      "exampleWorld [] []"] h e a
  show ?thesis by simp
qed

section \<open>Facts about Eval and Frames\<close>

lemma untouched_refl: "untouched s w s w"
  by (simp add: untouched_def grows_refl)

lemma untouched_trans: "untouched s w s1 w1 \<Longrightarrow> untouched s1 w1 s2 w2 \<Longrightarrow> untouched s w s2 w2"
  by (auto simp: untouched_def intro: grows_trans)

lemma ptracePeek_untouched: "returns (ptracePeek p a n s w) s1 w1 \<Longrightarrow> untouched s w s1 w1"
  by (simp add: untouched_def ptracePeek_returns)

lemma ptraceGetRegs_untouched: "returns (ptraceGetRegs p s w) s1 w1 \<Longrightarrow> untouched s w s1 w1"
  by (simp add: untouched_def ptraceGetRegs_returns)

lemma Frames_fields_untouched:
  "returns (Frames_fields x fp fs loc frS s w) s' w' \<Longrightarrow> untouched s w s' w'"
proof (induction fs arbitrary: loc frS s w)
  case Nil
  then show ?case by (simp add: returns_iff untouched_refl)
next
  case (Cons f fs)
  obtain at v where f: "f = (at, v)" by (cases f)
  show ?case
  proof (cases at)
    case AttrLocation
    with Cons.prems f show ?thesis
      by (cases v) (auto simp: returns_def [of Panic] dest: Cons.IH)
  next
    case AttrName
    with Cons.prems f show ?thesis
      by (cases v) (auto simp: returns_def [of Panic] dest: Cons.IH)
  next
    case (AttrOther k)
    with Cons.prems f show ?thesis by (auto dest: Cons.IH)
  next
    case AttrType
    show ?thesis
    proof (cases v)
      case (ValOffset off)
      show ?thesis
      proof (cases "dwarfDataType x off")
        case (Inl e)
        with Cons.prems f AttrType ValOffset show ?thesis by (simp add: returns_def)
      next
        case (Inr t)
        show ?thesis
        proof (cases "TypeString t \<noteq> ''int'' \<or> TypeSize t \<noteq> IntSize (arch s)")
          case True
          with Cons.prems f AttrType ValOffset Inr show ?thesis by (auto dest: Cons.IH)
        next
          case False
          show ?thesis
          proof (cases "loc = 0")
            case True
            with Cons.prems f AttrType ValOffset Inr False show ?thesis
              by (auto simp: returns_iff untouched_refl)
          next
            case nz: False
            show ?thesis
            proof (cases "slice_to (replicate 8 (0 :: byte)) (IntSize (arch s))")
              case None
              with Cons.prems f AttrType ValOffset Inr False nz show ?thesis
                by (simp add: returns_def)
            next
              case (Some buf)
              with Cons.prems f AttrType ValOffset Inr False nz have
                "(\<exists>e. ptracePeek (stoppedPid s) loc (length buf) s w = Fail e s' w') \<or>
                 (\<exists>bytes s1 w1. ptracePeek (stoppedPid s) loc (length buf) s w = Ok bytes s1 w1 \<and>
                    returns (Frames_fields x fp fs loc
                       (frS @ [PieceType (TypeString t), PieceValue (ArchInt (arch s1) bytes)])
                       s1 w1) s' w')"
                by (simp add: returns_andThen)
              then show ?thesis
                by (auto dest!: returns_Fail returns_Ok ptracePeek_untouched Cons.IH
                         intro: untouched_trans)
            qed
          qed
        qed
      qed
    qed (use Cons.prems f AttrType in \<open>simp_all add: returns_def\<close>)
  qed
qed

lemma Frames_loop_untouched:
  "returns (Frames_loop x fp ns frS s w) s' w' \<Longrightarrow> untouched s w s' w'"
proof (induction ns arbitrary: frS s w)
  case Nil
  then show ?case by (simp add: returns_def)
next
  case (Cons n ns)
  show ?case
  proof (cases n)
    case (NextErr e)
    with Cons.prems show ?thesis by (auto simp: returns_iff untouched_refl)
  next
    case NextNil
    with Cons.prems show ?thesis by (simp add: returns_def)
  next
    case (NextEntry en)
    show ?thesis
    proof (cases "Tag en = 0 \<or> Tag en \<noteq> TagFormalParameter \<or> Children en")
      case True
      with Cons.prems NextEntry show ?thesis
        by (auto simp: returns_iff [of "Ok _ _ _"] returns_iff [of "Fail _ _ _"] untouched_refl
                 dest: Cons.IH split: if_splits)
    next
      case False
      with Cons.prems NextEntry have
        "(\<exists>e. Frames_fields x fp (Field en) 0 frS s w = Fail e s' w') \<or>
         (\<exists>frS1 s1 w1. Frames_fields x fp (Field en) 0 frS s w = Ok frS1 s1 w1 \<and>
            returns (Frames_loop x fp ns frS1 s1 w1) s' w')"
        by (simp add: returns_andThen)
      then show ?thesis
        by (auto dest!: returns_Fail returns_Ok Frames_fields_untouched Cons.IH
                 intro: untouched_trans)
    qed
  qed
qed

lemma Frames_untouched:
  assumes "returns (Frames x cnt s w) s' w'"
  shows "untouched s w s' w'"
proof (cases "cnt = 1")
  case False
  with assms show ?thesis by (auto simp: Frames_def returns_iff untouched_refl)
next
  case True
  with assms have
    "(\<exists>e. ptraceGetRegs (stoppedPid s) s w = Fail e s' w') \<or>
     (\<exists>rg s1 w1. ptraceGetRegs (stoppedPid s) s w = Ok rg s1 w1 \<and>
        returns (case entryForPC x (Rip rg) of
                Inl e \<Rightarrow> Fail e s1 w1
              | Inr off \<Rightarrow>
                  andThen (Frames_loop x (Rsp rg + of_int (PointerSize (arch s1)))
                             (readerAt x off) [] s1 w1)
                    (\<lambda>frS s2 w2. Ok [\<lparr>FrameS = frS\<rparr>] s2 w2)) s' w')"
    by (simp add: Frames_def returns_andThen)
  then show ?thesis
  proof
    assume "\<exists>e. ptraceGetRegs (stoppedPid s) s w = Fail e s' w'"
    then show ?thesis by (auto dest!: returns_Fail ptraceGetRegs_untouched)
  next
    assume "\<exists>rg s1 w1. ptraceGetRegs (stoppedPid s) s w = Ok rg s1 w1 \<and>
        returns (case entryForPC x (Rip rg) of
                Inl e \<Rightarrow> Fail e s1 w1
              | Inr off \<Rightarrow>
                  andThen (Frames_loop x (Rsp rg + of_int (PointerSize (arch s1)))
                             (readerAt x off) [] s1 w1)
                    (\<lambda>frS s2 w2. Ok [\<lparr>FrameS = frS\<rparr>] s2 w2)) s' w'"
    then obtain rg s1 w1 where g: "ptraceGetRegs (stoppedPid s) s w = Ok rg s1 w1"
      and r: "returns (case entryForPC x (Rip rg) of
                Inl e \<Rightarrow> Fail e s1 w1
              | Inr off \<Rightarrow>
                  andThen (Frames_loop x (Rsp rg + of_int (PointerSize (arch s1)))
                             (readerAt x off) [] s1 w1)
                    (\<lambda>frS s2 w2. Ok [\<lparr>FrameS = frS\<rparr>] s2 w2)) s' w'"
      by blast
    note u = ptraceGetRegs_untouched [OF returns_Ok [OF g]]
    show ?thesis
    proof (cases "entryForPC x (Rip rg)")
      case (Inl e)
      with r u show ?thesis by (simp add: returns_iff)
    next
      case (Inr off)
      with r have "returns (Frames_loop x (Rsp rg + of_int (PointerSize (arch s1)))
                             (readerAt x off) [] s1 w1) s' w'"
        by (auto simp: returns_andThen returns_iff [of "Ok _ _ _"] dest: returns_Fail)
      from untouched_trans [OF u Frames_loop_untouched [OF this]] show ?thesis .
    qed
  qed
qed

text \<open>
  C8. \<^verbatim>\<open>Eval\<close> and \<^verbatim>\<open>Frames\<close> (with any count) are queries: when they return, with or
  without an error, every field of the server is as before (the breakpoint table, the
  file table, the process, the stopped task and its registers), and so are the memory
  and the registers of the debuggee.
\<close>

theorem read_only_queries:
  "(returns (Eval x expr s w) s' w' \<longrightarrow> s' = s \<and> w' = w) \<and>
   (returns (Frames x cnt s w) s' w' \<longrightarrow>
      s' = s \<and> mem w' = mem w \<and> regs w' = regs w \<and> image w' = image w)"
proof -
  have "s' = s \<and> w' = w" if "returns (Eval x expr s w) s' w'"
    using that by (auto simp: Eval_def returns_iff split: sum.splits)
  moreover have "s' = s \<and> mem w' = mem w \<and> regs w' = regs w \<and> image w' = image w"
    if "returns (Frames x cnt s w) s' w'"
    using Frames_untouched [OF that] by (simp add: untouched_def)
  ultimately show ?thesis by blast
qed

theorem read_only_queries_witness:
  "\<exists>r frs w'.
     Eval exampleExtern ''4096'' exampleStopped stoppedWorld = Ok r exampleStopped stoppedWorld \<and>
     Frames exampleExtern 1 exampleStopped stoppedWorld = Ok frs exampleStopped w' \<and>
     mem w' = mem stoppedWorld \<and> regs w' = regs stoppedWorld"
proof -
  have "case Eval exampleExtern ''4096'' exampleStopped stoppedWorld of
          Ok r s' w' \<Rightarrow> True | _ \<Rightarrow> False"
    by code_simp
  then obtain r s1 w1 where
    e: "Eval exampleExtern ''4096'' exampleStopped stoppedWorld = Ok r s1 w1"
    by (cases "Eval exampleExtern ''4096'' exampleStopped stoppedWorld") simp_all
  have "case Frames exampleExtern 1 exampleStopped stoppedWorld of
          Ok frs s' w' \<Rightarrow> True | _ \<Rightarrow> False"
    by code_simp
  then obtain frs s' w' where
    f: "Frames exampleExtern 1 exampleStopped stoppedWorld = Ok frs s' w'"
    by (cases "Frames exampleExtern 1 exampleStopped stoppedWorld") simp_all
  from read_only_queries [where x = exampleExtern and expr = "''4096''" and s = exampleStopped
        and w = stoppedWorld and s' = s1 and w' = w1]
      read_only_queries [where x = exampleExtern and cnt = 1 and s = exampleStopped
        and w = stoppedWorld and s' = s' and w' = w']
      returns_Ok [OF e] returns_Ok [OF f]
  have "s1 = exampleStopped \<and> w1 = stoppedWorld"
    "s' = exampleStopped \<and> mem w' = mem stoppedWorld \<and> regs w' = regs stoppedWorld"
    by blast+
  with e f show ?thesis by blast
qed

lemma Frames_fields_Ok_types:
  "Frames_fields x fp fs loc frS s w = Ok r s' w' \<Longrightarrow>
     \<forall>off. (AttrType, ValOffset off) \<in> set fs \<longrightarrow> (\<exists>t. dwarfDataType x off = Inr t)"
proof (induction fs arbitrary: loc frS s w)
  case Nil
  then show ?case by simp
next
  case (Cons f fs)
  obtain at v where f: "f = (at, v)" by (cases f)
  show ?case
  proof (cases at)
    case AttrLocation
    with Cons.prems f show ?thesis
      by (cases v) (auto dest: Cons.IH)
  next
    case AttrName
    with Cons.prems f show ?thesis
      by (cases v) (auto dest: Cons.IH)
  next
    case (AttrOther k)
    with Cons.prems f show ?thesis by (auto dest: Cons.IH)
  next
    case AttrType
    show ?thesis
    proof (cases v)
      case (ValOffset off)
      show ?thesis
      proof (cases "dwarfDataType x off")
        case (Inl e)
        with Cons.prems f AttrType ValOffset show ?thesis by simp
      next
        case (Inr t)
        have "\<exists>loc1 frS1 s1 w1. Frames_fields x fp fs loc1 frS1 s1 w1 = Ok r s' w'"
          using Cons.prems f AttrType ValOffset Inr
          by (auto simp: andThen_Ok split: if_splits option.splits)
        then obtain loc1 frS1 s1 w1 where "Frames_fields x fp fs loc1 frS1 s1 w1 = Ok r s' w'"
          by blast
        from Cons.IH [OF this] f AttrType ValOffset Inr show ?thesis by auto
      qed
    qed (use Cons.prems f AttrType in simp_all)
  qed
qed

lemma Frames_loop_Ok_types:
  "Frames_loop x fp ns frS s w = Ok r s' w' \<Longrightarrow>
     \<forall>en\<in>set (walked ns). \<forall>off. (AttrType, ValOffset off) \<in> set (Field en) \<longrightarrow>
        (\<exists>t. dwarfDataType x off = Inr t)"
proof (induction ns arbitrary: frS s w)
  case Nil
  then show ?case by simp
next
  case (Cons n ns)
  show ?case
  proof (cases n)
    case (NextErr e)
    with Cons.prems show ?thesis by simp
  next
    case NextNil
    with Cons.prems show ?thesis by simp
  next
    case (NextEntry en)
    show ?thesis
    proof (cases "Tag en = 0")
      case True
      with NextEntry show ?thesis by simp
    next
      case nz: False
      show ?thesis
      proof (cases "Tag en = TagFormalParameter")
        case False
        with Cons.prems NextEntry nz have "Frames_loop x fp ns frS s w = Ok r s' w'" by simp
        from Cons.IH [OF this] NextEntry nz False show ?thesis by simp
      next
        case True
        with Cons.prems NextEntry nz obtain frS1 s1 w1 where
          a: "Frames_fields x fp (Field en) 0 frS s w = Ok frS1 s1 w1"
          and b: "Frames_loop x fp ns frS1 s1 w1 = Ok r s' w'"
          by (auto simp: andThen_Ok split: if_splits)
        from Frames_fields_Ok_types [OF a] Cons.IH [OF b] NextEntry nz True
        show ?thesis by simp
      qed
    qed
  qed
qed

text \<open>
  C10. \<^verbatim>\<open>Frames\<close> uses the type it has looked up whether or not the lookup has failed:
  at a type attribute whose lookup fails the walk panics (a method is called on the
  \<^verbatim>\<open>nil\<close> type). So \<^verbatim>\<open>Frames\<close> returns its frame only if the type of every formal
  parameter it walks over is found.
\<close>

theorem frames_type_lookup:
  "(dwarfDataType x off = Inl e \<longrightarrow>
      Frames_fields x fp ((AttrType, ValOffset off) # fs) loc frS s w = Panic) \<and>
   (Frames x cnt s w = Ok frs s' w' \<longrightarrow>
      (\<exists>off0. entryForPC x (Rip (regs w (stoppedPid s))) = Inr off0 \<and>
         (\<forall>en\<in>set (walked (readerAt x off0)).
            \<forall>off. (AttrType, ValOffset off) \<in> set (Field en) \<longrightarrow>
               (\<exists>t. dwarfDataType x off = Inr t))))"
proof -
  have "Frames_fields x fp ((AttrType, ValOffset off) # fs) loc frS s w = Panic"
    if "dwarfDataType x off = Inl e"
    using that by simp
  moreover have "\<exists>off0. entryForPC x (Rip (regs w (stoppedPid s))) = Inr off0 \<and>
         (\<forall>en\<in>set (walked (readerAt x off0)).
            \<forall>off. (AttrType, ValOffset off) \<in> set (Field en) \<longrightarrow>
               (\<exists>t. dwarfDataType x off = Inr t))"
    if ok: "Frames x cnt s w = Ok frs s' w'"
  proof -
    from ok obtain rg s1 w1 where g: "ptraceGetRegs (stoppedPid s) s w = Ok rg s1 w1"
      and r: "(case entryForPC x (Rip rg) of
                Inl e \<Rightarrow> Fail e s1 w1
              | Inr off \<Rightarrow>
                  andThen (Frames_loop x (Rsp rg + of_int (PointerSize (arch s1)))
                             (readerAt x off) [] s1 w1)
                    (\<lambda>frS s2 w2. Ok [\<lparr>FrameS = frS\<rparr>] s2 w2)) = Ok frs s' w'"
      by (auto simp: Frames_def andThen_Ok split: if_splits)
    from ptraceGetRegs_Ok [OF g] have rg: "rg = regs w (stoppedPid s)" by simp
    from r obtain off0 frS where o: "entryForPC x (Rip rg) = Inr off0"
      and l: "Frames_loop x (Rsp rg + of_int (PointerSize (arch s1))) (readerAt x off0) [] s1 w1
                = Ok frS s' w'"
      by (auto simp: andThen_Ok split: sum.splits)
    from Frames_loop_Ok_types [OF l] o rg show ?thesis by simp
  qed
  ultimately show ?thesis by blast
qed

theorem frames_type_lookup_witness:
  "dwarfDataType paramExtern 64 = Inl (Errno 2) \<and>
   Frames_fields paramExtern 0x7008 [(AttrType, ValOffset 64)] 0 [PieceName ''x'']
     exampleStopped stoppedWorld = Panic \<and>
   Frames paramExtern 1 exampleStopped stoppedWorld = Panic"
proof -
  have h: "dwarfDataType paramExtern 64 = Inl (Errno 2)"
    by (simp add: paramExtern_def exampleExtern_def)
  have "case Frames paramExtern 1 exampleStopped stoppedWorld of Panic \<Rightarrow> True | _ \<Rightarrow> False"
    by code_simp
  then have p: "Frames paramExtern 1 exampleStopped stoppedWorld = Panic"
    by (cases "Frames paramExtern 1 exampleStopped stoppedWorld") simp_all
  from frames_type_lookup [where x = paramExtern and off = 64 and e = "Errno 2"
      and fp = "0x7008" and fs = "[]" and loc = 0 and frS = "[PieceName ''x'']"
      and s = exampleStopped and w = stoppedWorld] h p
  show ?thesis by blast
qed

section \<open>Pokes and the memory\<close>


lemma length_addrs: "length (addrs a n) = n"
  by (induction n arbitrary: a) simp_all









section \<open>The table and the memory between requests\<close>



















section \<open>What a failing request leaves\<close>







section \<open>The loop of waitForTrap, step by step\<close>

lemma waitForTrap_pass:
  assumes ws: "waits w = Waited q status rg # rest" and nt: "\<not> isTrap status"
  shows "(faults w = [] \<longrightarrow>
            waitForTrap p s w =
              waitForTrap p s (w\<lparr>waits := rest, regs := (regs w)(q := rg),
                                 log := log w @ [EvWait p (Waited q status rg), EvCont q 0]\<rparr>))"
    and "(faults w = None # fs \<longrightarrow>
            waitForTrap p s w =
              waitForTrap p s (w\<lparr>waits := rest, regs := (regs w)(q := rg),
                                 log := log w @ [EvWait p (Waited q status rg), EvCont q 0],
                                 faults := fs\<rparr>))"
    and "(faults w = Some n # fs \<longrightarrow>
            waitForTrap p s w =
              Fail (Errorf ''ptraceCont'' (Errno n)) s
                (w\<lparr>waits := rest, regs := (regs w)(q := rg),
                   log := log w @ [EvWait p (Waited q status rg), EvCont q 0],
                   faults := fs\<rparr>))"
proof -
  let ?w1 = "w\<lparr>waits := rest, regs := (regs w)(q := rg),
               log := log w @ [EvWait p (Waited q status rg)]\<rparr>"
  have wt: "wait p s w = Ok (q, status) s ?w1" using ws by (simp add: wait_Ok)
  show "faults w = [] \<longrightarrow>
            waitForTrap p s w =
              waitForTrap p s (w\<lparr>waits := rest, regs := (regs w)(q := rg),
                                 log := log w @ [EvWait p (Waited q status rg), EvCont q 0]\<rparr>)"
  proof
    assume "faults w = []"
    then have "ptraceCont q 0 s ?w1 = Ok () s (?w1\<lparr>log := log ?w1 @ [EvCont q 0]\<rparr>)"
      by (simp add: ptraceCont_def traceCall_def fault_def emit_def)
    with wt nt have "waitForTrap p s w = waitForTrap p s (?w1\<lparr>log := log ?w1 @ [EvCont q 0]\<rparr>)"
      by (rule waitForTrap_step)
    then show "waitForTrap p s w =
              waitForTrap p s (w\<lparr>waits := rest, regs := (regs w)(q := rg),
                                 log := log w @ [EvWait p (Waited q status rg), EvCont q 0]\<rparr>)"
      by simp
  qed
  show "faults w = None # fs \<longrightarrow>
            waitForTrap p s w =
              waitForTrap p s (w\<lparr>waits := rest, regs := (regs w)(q := rg),
                                 log := log w @ [EvWait p (Waited q status rg), EvCont q 0],
                                 faults := fs\<rparr>)"
  proof
    assume "faults w = None # fs"
    then have "ptraceCont q 0 s ?w1 =
        Ok () s (?w1\<lparr>log := log ?w1 @ [EvCont q 0], faults := fs\<rparr>)"
      by (simp add: ptraceCont_def traceCall_def fault_def emit_def)
    with wt nt have "waitForTrap p s w =
        waitForTrap p s (?w1\<lparr>log := log ?w1 @ [EvCont q 0], faults := fs\<rparr>)"
      by (rule waitForTrap_step)
    then show "waitForTrap p s w =
              waitForTrap p s (w\<lparr>waits := rest, regs := (regs w)(q := rg),
                                 log := log w @ [EvWait p (Waited q status rg), EvCont q 0],
                                 faults := fs\<rparr>)"
      by simp
  qed
  show "faults w = Some n # fs \<longrightarrow>
            waitForTrap p s w =
              Fail (Errorf ''ptraceCont'' (Errno n)) s
                (w\<lparr>waits := rest, regs := (regs w)(q := rg),
                   log := log w @ [EvWait p (Waited q status rg), EvCont q 0],
                   faults := fs\<rparr>)"
  proof
    assume "faults w = Some n # fs"
    then have "ptraceCont q 0 s ?w1 =
        Fail (Errno n) s (?w1\<lparr>log := log ?w1 @ [EvCont q 0], faults := fs\<rparr>)"
      by (simp add: ptraceCont_def traceCall_def fault_def emit_def)
    with wt nt have "waitForTrap p s w =
        Fail (Errorf ''ptraceCont'' (Errno n)) s (?w1\<lparr>log := log ?w1 @ [EvCont q 0], faults := fs\<rparr>)"
      by (rule waitForTrap_contErr)
    then show "waitForTrap p s w =
              Fail (Errorf ''ptraceCont'' (Errno n)) s
                (w\<lparr>waits := rest, regs := (regs w)(q := rg),
                   log := log w @ [EvWait p (Waited q status rg), EvCont q 0],
                   faults := fs\<rparr>)"
      by simp
  qed
qed

lemma waitForTrap_head:
  "waits w = Waited q status rg # rest \<Longrightarrow> isTrap status \<Longrightarrow>
   waitForTrap p s w =
     Ok q s (w\<lparr>waits := rest, regs := (regs w)(q := rg),
               log := log w @ [EvWait p (Waited q status rg)]\<rparr>)"
  by (rule waitForTrap_trap) (simp_all add: wait_Ok)

lemma waitForTrap_reaches:
  "waits w = rs @ Waited wpid status r # rest \<Longrightarrow> list_all otherStop rs \<Longrightarrow> isTrap status \<Longrightarrow>
   faults w = [] \<Longrightarrow>
   \<exists>w'. waitForTrap p s w = Ok wpid s w' \<and> waits w' = rest \<and> regs w' wpid = r \<and>
        mem w' = mem w \<and>
        log w' = log w @ resumed p rs @ [EvWait p (Waited wpid status r)]"
proof (induction rs arbitrary: w)
  case Nil
  then show ?case by (simp add: waitForTrap_head resumed_def)
next
  case (Cons x rs)
  from Cons.prems(2) obtain q st rg where x: "x = Waited q st rg" and nt: "\<not> isTrap st"
    by (cases x) (auto simp: otherStop_def)
  let ?w1 = "w\<lparr>waits := rs @ Waited wpid status r # rest, regs := (regs w)(q := rg),
               log := log w @ [EvWait p (Waited q st rg), EvCont q 0]\<rparr>"
  have ws: "waits w = Waited q st rg # (rs @ Waited wpid status r # rest)"
    using Cons.prems(1) x by simp
  have step: "waitForTrap p s w = waitForTrap p s ?w1"
    using waitForTrap_pass(1) [OF ws nt] Cons.prems(4) by simp
  have "\<exists>w'. waitForTrap p s ?w1 = Ok wpid s w' \<and> waits w' = rest \<and> regs w' wpid = r \<and>
        mem w' = mem ?w1 \<and>
        log w' = log ?w1 @ resumed p rs @ [EvWait p (Waited wpid status r)]"
    using Cons.prems by (intro Cons.IH) simp_all
  then show ?case using step x by (auto simp: resumed_def task_def)
qed

text \<open>
  C6. \<^verbatim>\<open>waitForTrap\<close> returns a task only for a stop by SIGTRAP whose cause is not a clone
  event, and it does return that task: with a stop by SIGTRAP whose cause is not a clone
  event at the head of the replies it returns its task at once; every other stop at the head
  (a clone event, or a stop by any other signal) is followed by a continue of the signalling
  task with signal 0 and by the next wait, so that replies that hold only such stops before
  the trap (and no failing continue) end in the return of the trap's task, the trace being
  a wait and a continue for each of them and the wait of the trap; with no reply left the
  call blocks. An error of the kernel's wait is returned as the error of the wait, and a
  failing continue as the error of the continue.
\<close>

theorem clone_event_transparency:
  "(waitForTrap p s w = Ok wpid s' w' \<longrightarrow>
      (\<exists>rs status r. waits w = rs @ Waited wpid status r # waits w' \<and>
         list_all otherStop rs \<and>
         StopSignal status = SIGTRAP \<and> TrapCause status \<noteq> PTRACE_EVENT_CLONE \<and>
         log w' = log w @ resumed p rs @ [EvWait p (Waited wpid status r)])) \<and>
   (waitForTrap p s w = Fail e s' w' \<longrightarrow>
      (\<exists>rs x n. waits w = rs @ x # waits w' \<and> list_all otherStop rs \<and>
         (x = WaitError n \<and> e = Errorf ''wait'' (Errno n) \<and>
            log w' = log w @ resumed p rs @ [EvWait p x]
          \<or> otherStop x \<and> e = Errorf ''ptraceCont'' (Errno n) \<and>
            log w' = log w @ resumed p (rs @ [x])))) \<and>
   (waits w = Waited q status rg # rest \<and> StopSignal status = SIGTRAP \<and>
    TrapCause status = PTRACE_EVENT_CLONE \<and> faults w = [] \<longrightarrow>
      otherStop (Waited q status rg) \<and>
      waitForTrap p s w =
        waitForTrap p s (w\<lparr>waits := rest, regs := (regs w)(q := rg),
                           log := log w @ [EvWait p (Waited q status rg), EvCont q 0]\<rparr>)) \<and>
   (waits w = WaitError n # rest \<longrightarrow>
      waitForTrap p s w =
        Fail (Errorf ''wait'' (Errno n)) s
          (w\<lparr>waits := rest, log := log w @ [EvWait p (WaitError n)]\<rparr>)) \<and>
   (waits w = Waited q status rg # rest \<and>
    \<not> (StopSignal status = SIGTRAP \<and> TrapCause status \<noteq> PTRACE_EVENT_CLONE) \<longrightarrow>
      (faults w = [] \<longrightarrow>
         waitForTrap p s w =
           waitForTrap p s (w\<lparr>waits := rest, regs := (regs w)(q := rg),
                              log := log w @ [EvWait p (Waited q status rg), EvCont q 0]\<rparr>)) \<and>
      (\<forall>fs. faults w = None # fs \<longrightarrow>
         waitForTrap p s w =
           waitForTrap p s (w\<lparr>waits := rest, regs := (regs w)(q := rg),
                              log := log w @ [EvWait p (Waited q status rg), EvCont q 0],
                              faults := fs\<rparr>)) \<and>
      (\<forall>m fs. faults w = Some m # fs \<longrightarrow>
         waitForTrap p s w =
           Fail (Errorf ''ptraceCont'' (Errno m)) s
             (w\<lparr>waits := rest, regs := (regs w)(q := rg),
                log := log w @ [EvWait p (Waited q status rg), EvCont q 0],
                faults := fs\<rparr>))) \<and>
   (waits w = Waited q status rg # rest \<and>
    StopSignal status = SIGTRAP \<and> TrapCause status \<noteq> PTRACE_EVENT_CLONE \<longrightarrow>
      waitForTrap p s w =
        Ok q s (w\<lparr>waits := rest, regs := (regs w)(q := rg),
                  log := log w @ [EvWait p (Waited q status rg)]\<rparr>)) \<and>
   (waits w = [] \<longrightarrow> waitForTrap p s w = Hang) \<and>
   (\<forall>rs. waits w = rs @ Waited q status rg # rest \<and> list_all otherStop rs \<and>
      StopSignal status = SIGTRAP \<and> TrapCause status \<noteq> PTRACE_EVENT_CLONE \<and> faults w = [] \<longrightarrow>
      (\<exists>w1. waitForTrap p s w = Ok q s w1 \<and> waits w1 = rest \<and>
            log w1 = log w @ resumed p rs @ [EvWait p (Waited q status rg)]))"
proof -
  have c1: "waitForTrap p s w = Ok wpid s' w' \<longrightarrow>
      (\<exists>rs status r. waits w = rs @ Waited wpid status r # waits w' \<and>
         list_all otherStop rs \<and>
         StopSignal status = SIGTRAP \<and> TrapCause status \<noteq> PTRACE_EVENT_CLONE \<and>
         log w' = log w @ resumed p rs @ [EvWait p (Waited wpid status r)])"
    using waitForTrap_Ok [of p s w wpid s' w'] unfolding isTrap_def by blast
  have c2: "waitForTrap p s w = Fail e s' w' \<longrightarrow>
      (\<exists>rs x n. waits w = rs @ x # waits w' \<and> list_all otherStop rs \<and>
         (x = WaitError n \<and> e = Errorf ''wait'' (Errno n) \<and>
            log w' = log w @ resumed p rs @ [EvWait p x]
          \<or> otherStop x \<and> e = Errorf ''ptraceCont'' (Errno n) \<and>
            log w' = log w @ resumed p (rs @ [x])))"
    using waitForTrap_Fail [of p s w e s' w'] by blast
  have c3: "waits w = Waited q status rg # rest \<and> StopSignal status = SIGTRAP \<and>
    TrapCause status = PTRACE_EVENT_CLONE \<and> faults w = [] \<longrightarrow>
      otherStop (Waited q status rg) \<and>
      waitForTrap p s w =
        waitForTrap p s (w\<lparr>waits := rest, regs := (regs w)(q := rg),
                           log := log w @ [EvWait p (Waited q status rg), EvCont q 0]\<rparr>)"
  proof
    assume a: "waits w = Waited q status rg # rest \<and> StopSignal status = SIGTRAP \<and>
      TrapCause status = PTRACE_EVENT_CLONE \<and> faults w = []"
    then have nt: "\<not> isTrap status" by (simp add: isTrap_def)
    then have "otherStop (Waited q status rg)" by (simp add: otherStop_def)
    moreover have "waitForTrap p s w =
        waitForTrap p s (w\<lparr>waits := rest, regs := (regs w)(q := rg),
                           log := log w @ [EvWait p (Waited q status rg), EvCont q 0]\<rparr>)"
      using waitForTrap_pass(1) [of w q status rg rest p s] a nt by blast
    ultimately show "otherStop (Waited q status rg) \<and>
      waitForTrap p s w =
        waitForTrap p s (w\<lparr>waits := rest, regs := (regs w)(q := rg),
                           log := log w @ [EvWait p (Waited q status rg), EvCont q 0]\<rparr>)"
      by blast
  qed
  have c4: "waits w = WaitError n # rest \<longrightarrow>
      waitForTrap p s w =
        Fail (Errorf ''wait'' (Errno n)) s
          (w\<lparr>waits := rest, log := log w @ [EvWait p (WaitError n)]\<rparr>)"
  proof
    assume "waits w = WaitError n # rest"
    then have "wait p s w = Fail (Errno n) s
          (w\<lparr>waits := rest, log := log w @ [EvWait p (WaitError n)]\<rparr>)"
      by (simp add: wait_Fail)
    then show "waitForTrap p s w =
        Fail (Errorf ''wait'' (Errno n)) s
          (w\<lparr>waits := rest, log := log w @ [EvWait p (WaitError n)]\<rparr>)"
      by (rule waitForTrap_waitErr)
  qed
  have c5: "waits w = Waited q status rg # rest \<and>
    \<not> (StopSignal status = SIGTRAP \<and> TrapCause status \<noteq> PTRACE_EVENT_CLONE) \<longrightarrow>
      (faults w = [] \<longrightarrow>
         waitForTrap p s w =
           waitForTrap p s (w\<lparr>waits := rest, regs := (regs w)(q := rg),
                              log := log w @ [EvWait p (Waited q status rg), EvCont q 0]\<rparr>)) \<and>
      (\<forall>fs. faults w = None # fs \<longrightarrow>
         waitForTrap p s w =
           waitForTrap p s (w\<lparr>waits := rest, regs := (regs w)(q := rg),
                              log := log w @ [EvWait p (Waited q status rg), EvCont q 0],
                              faults := fs\<rparr>)) \<and>
      (\<forall>m fs. faults w = Some m # fs \<longrightarrow>
         waitForTrap p s w =
           Fail (Errorf ''ptraceCont'' (Errno m)) s
             (w\<lparr>waits := rest, regs := (regs w)(q := rg),
                log := log w @ [EvWait p (Waited q status rg), EvCont q 0],
                faults := fs\<rparr>))"
  proof
    assume a: "waits w = Waited q status rg # rest \<and>
      \<not> (StopSignal status = SIGTRAP \<and> TrapCause status \<noteq> PTRACE_EVENT_CLONE)"
    then have ws: "waits w = Waited q status rg # rest" and nt: "\<not> isTrap status"
      by (simp_all add: isTrap_def)
    show "(faults w = [] \<longrightarrow>
         waitForTrap p s w =
           waitForTrap p s (w\<lparr>waits := rest, regs := (regs w)(q := rg),
                              log := log w @ [EvWait p (Waited q status rg), EvCont q 0]\<rparr>)) \<and>
      (\<forall>fs. faults w = None # fs \<longrightarrow>
         waitForTrap p s w =
           waitForTrap p s (w\<lparr>waits := rest, regs := (regs w)(q := rg),
                              log := log w @ [EvWait p (Waited q status rg), EvCont q 0],
                              faults := fs\<rparr>)) \<and>
      (\<forall>m fs. faults w = Some m # fs \<longrightarrow>
         waitForTrap p s w =
           Fail (Errorf ''ptraceCont'' (Errno m)) s
             (w\<lparr>waits := rest, regs := (regs w)(q := rg),
                log := log w @ [EvWait p (Waited q status rg), EvCont q 0],
                faults := fs\<rparr>))"
      using waitForTrap_pass [OF ws nt] by blast
  qed
  have c6: "waits w = Waited q status rg # rest \<and>
    StopSignal status = SIGTRAP \<and> TrapCause status \<noteq> PTRACE_EVENT_CLONE \<longrightarrow>
      waitForTrap p s w =
        Ok q s (w\<lparr>waits := rest, regs := (regs w)(q := rg),
                  log := log w @ [EvWait p (Waited q status rg)]\<rparr>)"
    using waitForTrap_head [of w q status rg rest p s] by (simp add: isTrap_def)
  have c7: "waits w = [] \<longrightarrow> waitForTrap p s w = Hang"
    by (simp add: waitForTrap_exhausted)
  have c8: "\<forall>rs. waits w = rs @ Waited q status rg # rest \<and> list_all otherStop rs \<and>
      StopSignal status = SIGTRAP \<and> TrapCause status \<noteq> PTRACE_EVENT_CLONE \<and> faults w = [] \<longrightarrow>
      (\<exists>w1. waitForTrap p s w = Ok q s w1 \<and> waits w1 = rest \<and>
            log w1 = log w @ resumed p rs @ [EvWait p (Waited q status rg)])"
  proof (intro allI impI)
    fix rs
    assume a: "waits w = rs @ Waited q status rg # rest \<and> list_all otherStop rs \<and>
      StopSignal status = SIGTRAP \<and> TrapCause status \<noteq> PTRACE_EVENT_CLONE \<and> faults w = []"
    then have "isTrap status" by (simp add: isTrap_def)
    with a waitForTrap_reaches [of w rs q status rg rest p s]
    show "\<exists>w1. waitForTrap p s w = Ok q s w1 \<and> waits w1 = rest \<and>
            log w1 = log w @ resumed p rs @ [EvWait p (Waited q status rg)]"
      by blast
  qed
  from c1 c2 c3 c4 c5 c6 c7 c8 show ?thesis by blast
qed

theorem clone_event_transparency_witness:
  "list_all otherStop [Waited 101 cloneStatus (regsAt 0x2000 0x8000),
                       Waited 100 stopStatus (regsAt 0x1001 0x7000)] \<and>
   (\<exists>w1. waitForTrap (- 1) exampleStopped
            (exampleWorld [Waited 101 cloneStatus (regsAt 0x2000 0x8000),
                           Waited 100 stopStatus (regsAt 0x1001 0x7000),
                           Waited 100 trapStatus (regsAt 0x1001 0x7000)] []) =
           Ok 100 exampleStopped w1 \<and> waits w1 = [] \<and>
         log w1 = [EvWait (- 1) (Waited 101 cloneStatus (regsAt 0x2000 0x8000)), EvCont 101 0,
                   EvWait (- 1) (Waited 100 stopStatus (regsAt 0x1001 0x7000)), EvCont 100 0,
                   EvWait (- 1) (Waited 100 trapStatus (regsAt 0x1001 0x7000))])"
proof -
  let ?rs = "[Waited 101 cloneStatus (regsAt 0x2000 0x8000),
              Waited 100 stopStatus (regsAt 0x1001 0x7000)]"
  let ?w = "exampleWorld [Waited 101 cloneStatus (regsAt 0x2000 0x8000),
                           Waited 100 stopStatus (regsAt 0x1001 0x7000),
                           Waited 100 trapStatus (regsAt 0x1001 0x7000)] []"
  have os: "list_all otherStop ?rs"
    by (simp add: otherStop_def isTrap_def cloneStatus_def stopStatus_def SIGTRAP_def
        PTRACE_EVENT_CLONE_def)
  have hyp: "waits ?w = ?rs @ Waited 100 trapStatus (regsAt 0x1001 0x7000) # [] \<and>
      list_all otherStop ?rs \<and>
      StopSignal trapStatus = SIGTRAP \<and> TrapCause trapStatus \<noteq> PTRACE_EVENT_CLONE \<and>
      faults ?w = []"
    using os by (simp add: exampleWorld_def trapStatus_def SIGTRAP_def PTRACE_EVENT_CLONE_def)
  from clone_event_transparency [where p = "- 1" and s = exampleStopped and w = ?w
      and q = 100 and status = trapStatus and rg = "regsAt 0x1001 0x7000" and rest = "[]"]
  have "\<forall>rs. waits ?w = rs @ Waited 100 trapStatus (regsAt 0x1001 0x7000) # [] \<and>
      list_all otherStop rs \<and>
      StopSignal trapStatus = SIGTRAP \<and> TrapCause trapStatus \<noteq> PTRACE_EVENT_CLONE \<and> faults ?w = [] \<longrightarrow>
      (\<exists>w1. waitForTrap (- 1) exampleStopped ?w = Ok 100 exampleStopped w1 \<and> waits w1 = [] \<and>
            log w1 = log ?w @ resumed (- 1) rs @ [EvWait (- 1) (Waited 100 trapStatus (regsAt 0x1001 0x7000))])"
    by blast
  with hyp have "\<exists>w1. waitForTrap (- 1) exampleStopped ?w = Ok 100 exampleStopped w1 \<and> waits w1 = [] \<and>
            log w1 = log ?w @ resumed (- 1) ?rs @ [EvWait (- 1) (Waited 100 trapStatus (regsAt 0x1001 0x7000))]"
    by blast
  then show ?thesis using os
    by (simp add: resumed_def task_def exampleWorld_def)
qed

section \<open>Where a failing Breakpoint stops\<close>








section \<open>The step over the breakpoint under the program counter\<close>








end
